theory Spec2Isabelle
  imports Main "HOL-Library.Word"
begin

unbundle bit_operations_syntax

section \<open>RS485Master.js: frame codec\<close>

text \<open>
  The program is a browser script that drives a bus of temperature nodes over a serial
  line. A JavaScript string is a sequence of code units; the frames of this protocol are
  ASCII text, and a string is modelled as \<^typ>\<open>string\<close>, one \<^typ>\<open>char\<close> per code unit
  (so \<open>charCodeAt\<close> is \<^const>\<open>of_char\<close>, with values below 256).
\<close>

definition ascii :: "string \<Rightarrow> bool" where
  "ascii m = list_all (\<lambda>c. (of_char c :: nat) < 128) m"

subsection \<open>calculateCRC (lines 22--36)\<close>

text \<open>
  The bitwise operators of JavaScript work on 32-bit integers, so the register \<open>crc\<close> is
  a 32-bit word. \<open>crc_bit\<close> is the body of the inner loop (lines 27--32), \<open>crc_inner\<close> the
  inner loop with its remaining iteration count, \<open>crc_char\<close> the body of the outer loop
  for one character (lines 25--33). The number returned is the signed reading of the
  register.
\<close>

definition crc_bit :: "32 word \<Rightarrow> 32 word" where
  "crc_bit crc =
     (if crc AND 0x8000 \<noteq> 0 then (push_bit 1 crc) XOR 0x1021 else push_bit 1 crc) AND 0xFFFF"

fun crc_inner :: "nat \<Rightarrow> 32 word \<Rightarrow> 32 word" where
  "crc_inner 0 crc = crc"
| "crc_inner (Suc j) crc = crc_inner j (crc_bit crc)"

definition crc_char :: "32 word \<Rightarrow> char \<Rightarrow> 32 word" where
  "crc_char crc c = crc_inner 8 (crc XOR push_bit 8 (word_of_nat (of_char c)))"

definition calculateCRC :: "string \<Rightarrow> int" where
  "calculateCRC data = sint (foldl crc_char 0xFFFF data)"

subsection \<open>The reference CRC of the specification\<close>

text \<open>
  Written from the words of the specification, on natural numbers: a 16-bit register,
  initially \<open>0xFFFF\<close>; each input byte is XORed into the top byte of the register; then
  eight steps, each of which shifts left by one bit, XORs the polynomial \<open>0x1021\<close> when the
  top bit before the shift was set, and masks to 16 bits.
\<close>

definition spec_crc_step :: "nat \<Rightarrow> nat" where
  "spec_crc_step r =
     take_bit 16 (if bit r 15 then push_bit 1 r XOR 0x1021 else push_bit 1 r)"

definition spec_crc_byte :: "nat \<Rightarrow> nat \<Rightarrow> nat" where
  "spec_crc_byte r b = (spec_crc_step ^^ 8) (r XOR push_bit 8 b)"

definition spec_crc16 :: "nat list \<Rightarrow> nat" where
  "spec_crc16 bytes = foldl spec_crc_byte 0xFFFF bytes"

subsection \<open>Hexadecimal text: toString(16), toUpperCase, parseInt(_, 16)\<close>

definition hexDigit :: "nat \<Rightarrow> char" where
  "hexDigit d = ''0123456789abcdef'' ! (d mod 16)"

fun digits16 :: "nat \<Rightarrow> string" where
  "digits16 n = (if n < 16 then [hexDigit n] else digits16 (n div 16) @ [hexDigit (n mod 16)])"

declare digits16.simps [simp del]

text \<open>\<open>Number.prototype.toString(16)\<close> on an integer value.\<close>

definition toString16 :: "int \<Rightarrow> string" where
  "toString16 n = (if n < 0 then CHR ''-'' # digits16 (nat (- n)) else digits16 (nat n))"

text \<open>\<open>String.prototype.toUpperCase\<close> on ASCII text: the letters a--z are mapped to A--Z.\<close>

definition upperChar :: "char \<Rightarrow> char" where
  "upperChar c =
     (case map_of (zip ''abcdefghijklmnopqrstuvwxyz'' ''ABCDEFGHIJKLMNOPQRSTUVWXYZ'') c of
        Some u \<Rightarrow> u
      | None \<Rightarrow> c)"

definition toUpperCase :: "string \<Rightarrow> string" where
  "toUpperCase s = map upperChar s"

text \<open>
  White space and line terminators of JavaScript among the code units below 256: tab,
  line feed, vertical tab, form feed, carriage return, space and no-break space.
\<close>

definition isWhiteSpace :: "char \<Rightarrow> bool" where
  "isWhiteSpace c =
     (c \<in> set [CHR 0x09, CHR 0x0A, CHR 0x0B, CHR 0x0C, CHR 0x0D, CHR 0x20, CHR 0xA0])"

text \<open>The value of a hexadecimal digit, in either case; \<open>None\<close> for any other character.\<close>

definition hexValue :: "char \<Rightarrow> nat option" where
  "hexValue c =
     map_of
       [(CHR ''0'', 0), (CHR ''1'', 1), (CHR ''2'', 2), (CHR ''3'', 3), (CHR ''4'', 4),
        (CHR ''5'', 5), (CHR ''6'', 6), (CHR ''7'', 7), (CHR ''8'', 8), (CHR ''9'', 9),
        (CHR ''a'', 10), (CHR ''b'', 11), (CHR ''c'', 12), (CHR ''d'', 13), (CHR ''e'', 14),
        (CHR ''f'', 15),
        (CHR ''A'', 10), (CHR ''B'', 11), (CHR ''C'', 12), (CHR ''D'', 13), (CHR ''E'', 14),
        (CHR ''F'', 15)] c"

definition isHexDigit :: "char \<Rightarrow> bool" where
  "isHexDigit c = (hexValue c \<noteq> None)"

definition stripHexPrefix :: "string \<Rightarrow> string" where
  "stripHexPrefix s =
     (case s of
        c # d # rest \<Rightarrow> if c = CHR ''0'' \<and> (d = CHR ''x'' \<or> d = CHR ''X'') then rest else s
      | _ \<Rightarrow> s)"

text \<open>
  \<open>parseInt(s, 16)\<close>: leading white space is skipped, then an optional sign, then an
  optional \<open>0x\<close> or \<open>0X\<close>, then the longest run of hexadecimal digits; whatever follows is
  ignored. With no digit the result is \<open>NaN\<close>, here \<open>None\<close>. (The result is only ever
  compared with a CRC below \<open>2^16\<close>, where the rounding of large values to a double makes
  no difference.)
\<close>

definition parseInt16 :: "string \<Rightarrow> int option" where
  "parseInt16 str =
     (let s = dropWhile isWhiteSpace str;
          neg = (s \<noteq> [] \<and> hd s = CHR ''-'');
          s1 = (if s \<noteq> [] \<and> (hd s = CHR ''-'' \<or> hd s = CHR ''+'') then tl s else s);
          ds = takeWhile isHexDigit (stripHexPrefix s1)
      in if ds = [] then None
         else let v = int (foldl (\<lambda>acc c. acc * 16 + the (hexValue c)) 0 ds)
              in Some (if neg then - v else v))"

subsection \<open>Encoding a frame\<close>

text \<open>
  The frame written for a message (lines 172, 196, 214 and 237, each the template
  \<open>`${message},${crc.toString(16).toUpperCase()}\n`\<close>); \<open>crcText\<close> is its CRC field.
\<close>

definition crcText :: "string \<Rightarrow> string" where
  "crcText message = toUpperCase (toString16 (calculateCRC message))"

definition encodeFrame :: "string \<Rightarrow> string" where
  "encodeFrame message = message @ '','' @ crcText message @ [CHR 0x0A]"

subsection \<open>String and array methods used by the receive path\<close>

text \<open>\<open>String.prototype.split(sep)\<close> for a one-character separator: never the empty list.\<close>

fun js_split :: "char \<Rightarrow> string \<Rightarrow> string list" where
  "js_split sep [] = [[]]"
| "js_split sep (c # cs) =
     (if c = sep then [] # js_split sep cs
      else case js_split sep cs of
             x # xs \<Rightarrow> (c # x) # xs
           | [] \<Rightarrow> [[c]])"

text \<open>\<open>String.prototype.trim\<close>.\<close>

definition js_trim :: "string \<Rightarrow> string" where
  "js_trim s = rev (dropWhile isWhiteSpace (rev (dropWhile isWhiteSpace s)))"

text \<open>\<open>String.prototype.lastIndexOf(c)\<close>; the result \<open>-1\<close> is \<open>None\<close>.\<close>

definition lastIndexOf :: "char \<Rightarrow> string \<Rightarrow> nat option" where
  "lastIndexOf c s =
     (if c \<in> set s then Some (length s - 1 - length (takeWhile (\<lambda>x. x \<noteq> c) (rev s)))
      else None)"

text \<open>Reading \<open>xs[i]\<close>: out of range the value is \<open>undefined\<close>, here \<open>None\<close>.\<close>

definition arrayAt :: "'a list \<Rightarrow> nat \<Rightarrow> 'a option" where
  "arrayAt xs i = (if i < length xs then Some (xs ! i) else None)"

text \<open>
  The registry maps are plain objects created by \<open>{}\<close>, so a key that is not an own
  property is looked up in \<open>Object.prototype\<close>, whose properties are all functions or
  objects, hence truthy. \<open>truthyProperty obj key\<close> is the truth value of \<open>obj[key]\<close> for a
  map of own boolean properties.
\<close>

definition objectPrototypeKeys :: "string list" where
  "objectPrototypeKeys =
     [''constructor'', ''__defineGetter__'', ''__defineSetter__'', ''hasOwnProperty'',
      ''__lookupGetter__'', ''__lookupSetter__'', ''isPrototypeOf'',
      ''propertyIsEnumerable'', ''toString'', ''valueOf'', ''__proto__'',
      ''toLocaleString'']"

definition truthyProperty :: "(string \<rightharpoonup> bool) \<Rightarrow> string \<Rightarrow> bool" where
  "truthyProperty obj key =
     (case obj key of Some b \<Rightarrow> b | None \<Rightarrow> key \<in> set objectPrototypeKeys)"

section \<open>RS485Master.js: the protocol engine\<close>

subsection \<open>State\<close>

text \<open>
  The callbacks handed to \<open>setTimeout\<close>. \<open>ConnectedResume address i\<close> is the rest of
  \<open>sendConnectedMessage(address)\<close> after the \<open>await\<close> of line 174 in iteration \<open>i\<close>.
\<close>

datatype callback =
    StartDiscovery
  | DiscoveryCheck
  | RequestTemperature
  | ConnectedResume string nat

text \<open>
  The lines appended to the log panel \<open>outputElement.textContent\<close>, one constructor per
  message text. (The panel keeps its last 100 lines, lines 92--99; that trimming and the
  device grid of \<open>updateDeviceGrid\<close> are rendering and are left out.)
\<close>

datatype log_line =
    Received string
  | InvalidFormat
  | CrcFailed
  | TooManyErrors string
  | Sent string
  | SentRetry string nat
  | MaxAttemptsReached
  | Retrying nat
  | DiscoveryComplete
  | ResetSent
  | SerialConnected

text \<open>
  The global variables of lines 8--20, together with what the script has handed to its
  collaborators: the frames passed to \<open>writer.write\<close> (oldest first), the pending
  timers with their delay in milliseconds, and the log.
\<close>

record state =
  deviceAddresses :: "string list"
  deviceTemperatures :: "string \<rightharpoonup> string"
  connectedDevices :: "string \<rightharpoonup> bool"
  confirmationRetries :: "string \<rightharpoonup> nat"
  errorCounters :: "string \<rightharpoonup> nat"
  discoveryAttempts :: nat
  currentDeviceIndex :: nat
  isSampling :: bool
  serialBuffer :: string
  written :: "string list"
  timers :: "(nat \<times> callback) list"
  outputLog :: "log_line list"

definition maxDiscoveryAttempts :: nat where "maxDiscoveryAttempts = 1000"
definition waitTime :: nat where "waitTime = 100"
definition connectedMessageRetries :: nat where "connectedMessageRetries = 3"
definition maxErrorCount :: nat where "maxErrorCount = 5"

definition initialState :: state where
  "initialState =
     \<lparr> deviceAddresses = [], deviceTemperatures = Map.empty, connectedDevices = Map.empty,
       confirmationRetries = Map.empty, errorCounters = Map.empty, discoveryAttempts = 0,
       currentDeviceIndex = 0, isSampling = False, serialBuffer = [], written = [],
       timers = [], outputLog = [] \<rparr>"

definition writeFrame :: "string \<Rightarrow> state \<Rightarrow> state" where
  "writeFrame message s = s\<lparr>written := written s @ [encodeFrame message]\<rparr>"

definition logLine :: "log_line \<Rightarrow> state \<Rightarrow> state" where
  "logLine l s = s\<lparr>outputLog := outputLog s @ [l]\<rparr>"

definition setTimeout :: "callback \<Rightarrow> nat \<Rightarrow> state \<Rightarrow> state" where
  "setTimeout cb delay s = s\<lparr>timers := timers s @ [(delay, cb)]\<rparr>"

subsection \<open>requestTemperature (lines 231--239)\<close>

definition requestTemperature :: "state \<Rightarrow> state" where
  "requestTemperature s =
     (if length (deviceAddresses s) = 0 \<or> \<not> isSampling s then s
      else let address = (case arrayAt (deviceAddresses s) (currentDeviceIndex s) of
                            Some a \<Rightarrow> a
                          | None \<Rightarrow> ''undefined'');
               message = address @ '',READTEMP''
           in logLine (Sent message) (writeFrame message s))"

subsection \<open>handleCorruptedData (lines 152--166)\<close>

text \<open>
  \<open>errorCount s address\<close> is the read \<open>errorCounters[address] || 0\<close>: 0 when the address
  has no counter of its own. (It is only read for addresses of \<open>deviceAddresses\<close>, each
  of which has a counter of its own in every session, lemma \<open>registryOwn_run\<close>.)
  \<open>if (!address) return\<close> leaves for \<open>undefined\<close> and for the empty string.
\<close>

definition errorCount :: "state \<Rightarrow> string \<Rightarrow> nat" where
  "errorCount s address = (case errorCounters s address of Some k \<Rightarrow> k | None \<Rightarrow> 0)"

definition handleCorruptedData :: "state \<Rightarrow> state" where
  "handleCorruptedData s =
     (case arrayAt (deviceAddresses s) (currentDeviceIndex s) of
        None \<Rightarrow> s
      | Some address \<Rightarrow>
          if address = [] then s
          else let n = errorCount s address + 1;
                   s1 = s\<lparr>errorCounters := (errorCounters s)(address \<mapsto> n)\<rparr>;
                   s2 = (if n > maxErrorCount
                         then (logLine (TooManyErrors address) s1)
                                \<lparr>currentDeviceIndex :=
                                   (currentDeviceIndex s1 + 1) mod length (deviceAddresses s1)\<rparr>
                         else s1)
               in setTimeout RequestTemperature waitTime s2)"

subsection \<open>sendConnectedMessage (lines 168--177)\<close>

text \<open>
  The asynchronous loop, run from iteration \<open>i\<close> up to its next \<open>await\<close>: either one more
  frame is written and the 100 ms timer armed, or the loop is over and the device is
  marked connected.
\<close>

definition sendConnectedLoop :: "nat \<Rightarrow> string \<Rightarrow> state \<Rightarrow> state" where
  "sendConnectedLoop i address s =
     (if i < connectedMessageRetries
      then let confirmationMessage = address @ '',CONNECTED''
           in setTimeout (ConnectedResume address i) 100
                (logLine (SentRetry confirmationMessage (i + 1))
                   (writeFrame confirmationMessage s))
      else s\<lparr>connectedDevices := (connectedDevices s)(address \<mapsto> True)\<rparr>)"

definition sendConnectedMessage :: "string \<Rightarrow> state \<Rightarrow> state" where
  "sendConnectedMessage address s = sendConnectedLoop 0 address s"

subsection \<open>handleSerialData (lines 86--149)\<close>

text \<open>
  The outcome of lines 87 and 101--118 for one line of input: ignored as empty, a framing
  failure (no comma), an integrity failure (the CRC differs, or is not a number), or a
  valid frame with its message.
\<close>

datatype frame = Ignored | FramingError | IntegrityError | Valid string

definition classify :: "string \<Rightarrow> frame" where
  "classify data =
     (if data = [] then Ignored
      else case lastIndexOf CHR '','' data of
             None \<Rightarrow> FramingError
           | Some separatorIndex \<Rightarrow>
               let message = take separatorIndex data;
                   receivedCRC = parseInt16 (drop (separatorIndex + 1) data);
                   calculatedCRC = calculateCRC message
               in if Some calculatedCRC \<noteq> receivedCRC then IntegrityError
                  else Valid message)"

text \<open>Lines 140--148: a message that is not a reading of a known device.\<close>

definition registerDevice :: "string \<Rightarrow> state \<Rightarrow> state" where
  "registerDevice message s =
     (if \<not> truthyProperty (connectedDevices s) message \<and> message \<notin> set (deviceAddresses s)
      then sendConnectedMessage message
             (s\<lparr>deviceAddresses := deviceAddresses s @ [message],
                deviceTemperatures := (deviceTemperatures s)(message \<mapsto> ''N/A''),
                errorCounters := (errorCounters s)(message \<mapsto> 0),
                confirmationRetries := (confirmationRetries s)(message \<mapsto> 0),
                connectedDevices := (connectedDevices s)(message \<mapsto> False)\<rparr>)
      else s)"

text \<open>Lines 120--148, for a valid frame.\<close>

definition handleMessage :: "string \<Rightarrow> state \<Rightarrow> state" where
  "handleMessage message s =
     (case (if CHR '','' \<in> set message then js_split CHR '','' message else []) of
        address # tempData # _ \<Rightarrow>
          if address \<in> set (deviceAddresses s)
          then let s1 = s\<lparr>deviceTemperatures := (deviceTemperatures s)(address \<mapsto> tempData),
                          errorCounters := (errorCounters s)(address \<mapsto> 0),
                          currentDeviceIndex :=
                            (currentDeviceIndex s + 1) mod length (deviceAddresses s)\<rparr>
               in if isSampling s1 then setTimeout RequestTemperature waitTime s1 else s1
          else registerDevice message s
      | _ \<Rightarrow> registerDevice message s)"

definition handleSerialData :: "string \<Rightarrow> state \<Rightarrow> state" where
  "handleSerialData data s =
     (case classify data of
        Ignored \<Rightarrow> s
      | FramingError \<Rightarrow> handleCorruptedData (logLine InvalidFormat (logLine (Received data) s))
      | IntegrityError \<Rightarrow> handleCorruptedData (logLine CrcFailed (logLine (Received data) s))
      | Valid message \<Rightarrow> handleMessage message (logLine (Received data) s))"

subsection \<open>processSerialBuffer (lines 78--85)\<close>

definition processSerialBuffer :: "state \<Rightarrow> state" where
  "processSerialBuffer s =
     (let lines = js_split (CHR 0x0A) (serialBuffer s)
      in fold (\<lambda>line. handleSerialData (js_trim line)) (butlast lines)
           (s\<lparr>serialBuffer := last lines\<rparr>))"

subsection \<open>startDiscovery (lines 187--209) and resetDiscovery (lines 211--229)\<close>

definition startDiscovery :: "state \<Rightarrow> state" where
  "startDiscovery s =
     (if discoveryAttempts s \<ge> maxDiscoveryAttempts then logLine MaxAttemptsReached s
      else setTimeout DiscoveryCheck waitTime
             (logLine (Sent ''DISCOVER'')
                (writeFrame ''DISCOVER'' (s\<lparr>discoveryAttempts := discoveryAttempts s + 1\<rparr>))))"

text \<open>The arrow function of lines 199--208, run when the timer of \<open>startDiscovery\<close> fires.\<close>

definition discoveryCheck :: "state \<Rightarrow> state" where
  "discoveryCheck s =
     (if length (deviceAddresses s) < 4
      then startDiscovery (logLine (Retrying (discoveryAttempts s)) s)
      else requestTemperature ((logLine DiscoveryComplete s)\<lparr>isSampling := True\<rparr>))"

definition resetDiscovery :: "state \<Rightarrow> state" where
  "resetDiscovery s =
     setTimeout StartDiscovery 1000
       (logLine ResetSent
          ((logLine (Sent ''RESET'') (writeFrame ''RESET'' s))
             \<lparr>deviceAddresses := [], deviceTemperatures := Map.empty,
              connectedDevices := Map.empty, confirmationRetries := Map.empty,
              errorCounters := Map.empty, discoveryAttempts := 0, currentDeviceIndex := 0,
              isSampling := False\<rparr>))"

subsection \<open>connectSerial (lines 38--57) and the event loop\<close>

text \<open>
  The path of \<open>connectSerial\<close> on which the port opens: the reset, one more
  \<open>startDiscovery\<close> timer of 2000 ms, and the read loop, whose chunks arrive as events.
\<close>

definition connectSerial :: "state \<Rightarrow> state" where
  "connectSerial s = setTimeout StartDiscovery 2000 (resetDiscovery (logLine SerialConnected s))"

fun fire :: "callback \<Rightarrow> state \<Rightarrow> state" where
  "fire StartDiscovery s = startDiscovery s"
| "fire DiscoveryCheck s = discoveryCheck s"
| "fire RequestTemperature s = requestTemperature s"
| "fire (ConnectedResume address i) s = sendConnectedLoop (i + 1) address s"

text \<open>
  What the browser can run next: a chunk of text read from the port (lines 67--70, the
  bytes decoded as ASCII), a pending timer, or a click on the reset button. Timers may
  fire in any order; each event runs to completion.
\<close>

datatype event = Receive string | TimerFires nat callback | ClickReset

fun step :: "event \<Rightarrow> state \<Rightarrow> state" where
  "step (Receive chunk) s = processSerialBuffer (s\<lparr>serialBuffer := serialBuffer s @ chunk\<rparr>)"
| "step (TimerFires delay cb) s =
     (if (delay, cb) \<in> set (timers s)
      then fire cb (s\<lparr>timers := remove1 (delay, cb) (timers s)\<rparr>)
      else s)"
| "step ClickReset s = resetDiscovery s"

definition run :: "event list \<Rightarrow> state \<Rightarrow> state" where
  "run evs s = fold step evs s"

section \<open>Notions used to state the properties\<close>

text \<open>
  The classification of the complete lines held by a receive buffer: what
  \<open>processSerialBuffer\<close> passes, line by line, to \<open>handleSerialData\<close>.
\<close>

definition decode :: "string \<Rightarrow> frame list" where
  "decode buffer =
     map (\<lambda>line. classify (js_trim line)) (butlast (js_split (CHR 0x0A) buffer))"

definition isCorrupted :: "string \<Rightarrow> bool" where
  "isCorrupted data = (classify data = FramingError \<or> classify data = IntegrityError)"

text \<open>The line of a reading \<open>address,value\<close> with its CRC field, as a device sends it.\<close>

definition readingLine :: "string \<Rightarrow> string \<Rightarrow> string" where
  "readingLine a v = (a @ '','' @ v) @ '','' @ crcText (a @ '','' @ v)"

text \<open>
  A reading of a registered device whose address and value are single fields (the comma
  is the field separator).
\<close>

definition knownReading :: "state \<Rightarrow> string \<times> string \<Rightarrow> bool" where
  "knownReading s r =
     (fst r \<in> set (deviceAddresses s) \<and> CHR '','' \<notin> set (fst r) \<and> CHR '','' \<notin> set (snd r))"

text \<open>
  One round of polling: the reading arrives, then the request timer it armed fires.
\<close>

definition pollRound :: "string \<times> string \<Rightarrow> state \<Rightarrow> state" where
  "pollRound r s =
     step (TimerFires waitTime RequestTemperature)
       (handleSerialData (readingLine (fst r) (snd r)) s)"

text \<open>The poll requests written so far, oldest first.\<close>

definition pollsWritten :: "state \<Rightarrow> string list" where
  "pollsWritten s =
     filter (\<lambda>f. f \<in> set (map (\<lambda>a. encodeFrame (a @ '',READTEMP'')) (deviceAddresses s)))
       (written s)"

text \<open>
  The number of DISCOVER frames written so far, whether a discovery timer (of either kind)
  is pending, and whether a timer that starts a discovery loop is pending.
\<close>

definition discoverCount :: "state \<Rightarrow> nat" where
  "discoverCount s = length (filter (\<lambda>f. f = encodeFrame ''DISCOVER'') (written s))"

definition discoveryPending :: "state \<Rightarrow> bool" where
  "discoveryPending s =
     list_ex (\<lambda>t. snd t = StartDiscovery \<or> snd t = DiscoveryCheck) (timers s)"

definition startPending :: "state \<Rightarrow> bool" where
  "startPending s = list_ex (\<lambda>t. snd t = StartDiscovery) (timers s)"

text \<open>Four devices are registered and every discovery loop has been started.\<close>

definition discoveryOver :: "state \<Rightarrow> bool" where
  "discoveryOver s = (4 \<le> length (deviceAddresses s) \<and> \<not> startPending s)"

definition cursorOk :: "state \<Rightarrow> bool" where
  "cursorOk s =
     (currentDeviceIndex s < length (deviceAddresses s)
      \<or> (deviceAddresses s = [] \<and> currentDeviceIndex s = 0))"

text \<open>What every operation other than the discovery loop and the reset leaves alone.\<close>

definition keepsDiscovery :: "state \<Rightarrow> state \<Rightarrow> bool" where
  "keepsDiscovery s s' =
     (discoveryAttempts s' = discoveryAttempts s \<and> isSampling s' = isSampling s
      \<and> discoverCount s' = discoverCount s \<and> discoveryPending s' = discoveryPending s
      \<and> startPending s' = startPending s
      \<and> length (deviceAddresses s) \<le> length (deviceAddresses s')
      \<and> (cursorOk s \<longrightarrow> cursorOk s'))"

definition engineInv :: "state \<Rightarrow> bool" where
  "engineInv s =
     (discoverCount s = discoveryAttempts s \<and> discoveryAttempts s \<le> 1000
      \<and> (isSampling s \<longrightarrow> 4 \<le> length (deviceAddresses s))
      \<and> (\<not> isSampling s \<and> \<not> discoveryPending s \<longrightarrow> discoveryAttempts s = 1000)
      \<and> cursorOk s)"

text \<open>
  Two facts about every session that make the maps above exact models of the plain
  objects: every registered address has an error counter of its own, and no name inherited
  from \<open>Object.prototype\<close> is ever a registered address, a key of \<open>connectedDevices\<close> or the
  address of a pending confirmation (so no assignment ever meets an inherited property).
\<close>

definition registryOwn :: "state \<Rightarrow> bool" where
  "registryOwn s = list_all (\<lambda>a. errorCounters s a \<noteq> None) (deviceAddresses s)"

definition inheritedName :: "string \<Rightarrow> bool" where
  "inheritedName a = (a \<in> set objectPrototypeKeys)"

definition noInheritedKeys :: "state \<Rightarrow> bool" where
  "noInheritedKeys s =
     (list_all (\<lambda>a. \<not> inheritedName a) (deviceAddresses s)
      \<and> list_all (\<lambda>k. connectedDevices s k = None) objectPrototypeKeys
      \<and> list_all (\<lambda>t. case snd t of ConnectedResume a i \<Rightarrow> \<not> inheritedName a | _ \<Rightarrow> True)
           (timers s))"

subsection \<open>Example sessions\<close>

text \<open>
  States reached from the connected engine by the events listed; the CRC fields are those
  of the messages (\<open>A\<close>: B915, \<open>B\<close>: 8976, \<open>C\<close>: 9957, \<open>D\<close>: E9B0, \<open>A,1\<close>: 83F8,
  \<open>D1\<close>: FA75), \<open>x\<close> is a line without a comma. In \<open>fourAnnounced\<close> four devices have
  answered the first DISCOVER frame and none has been confirmed yet; \<open>sampling\<close> is the
  state after the discovery check that follows.
\<close>

definition connected :: state where
  "connected = connectSerial initialState"

definition announcedA :: state where
  "announcedA = run [Receive (''A,B915'' @ [CHR 0x0A])] connected"

definition fourAnnounced :: state where
  "fourAnnounced =
     run [TimerFires 1000 StartDiscovery,
          Receive (''A,B915'' @ [CHR 0x0A] @ ''B,8976'' @ [CHR 0x0A] @ ''C,9957'' @ [CHR 0x0A]
                   @ ''D,E9B0'' @ [CHR 0x0A])] connected"

definition fourStartedTrace :: "event list" where
  "fourStartedTrace =
     [TimerFires 1000 StartDiscovery,
      Receive (''A,B915'' @ [CHR 0x0A] @ ''B,8976'' @ [CHR 0x0A] @ ''C,9957'' @ [CHR 0x0A]
               @ ''D,E9B0'' @ [CHR 0x0A]),
      TimerFires 2000 StartDiscovery]"

definition fourStarted :: state where
  "fourStarted = run [TimerFires 2000 StartDiscovery] fourAnnounced"

definition sampling :: state where
  "sampling = run [TimerFires 100 DiscoveryCheck] fourAnnounced"

definition cursorAtB :: state where
  "cursorAtB =
     run [Receive (''A,B915'' @ [CHR 0x0A] @ ''B,8976'' @ [CHR 0x0A] @ ''A,1,83F8'' @ [CHR 0x0A])]
       connected"

definition faultedB :: state where
  "faultedB = run [Receive (''x'' @ [CHR 0x0A] @ ''A,1,83F8'' @ [CHR 0x0A])] cursorAtB"

definition discoveryStarted :: state where
  "discoveryStarted =
     run [TimerFires 1000 StartDiscovery, TimerFires 2000 StartDiscovery] connected"

definition exhaustingTrace :: "event list" where
  "exhaustingTrace =
     [TimerFires 1000 StartDiscovery, TimerFires 2000 StartDiscovery]
     @ replicate 1000 (TimerFires 100 DiscoveryCheck)"

definition staleConfirmation :: state where
  "staleConfirmation =
     run [Receive (''D1,FA75'' @ [CHR 0x0A]), ClickReset,
          TimerFires 100 (ConnectedResume ''D1'' 0), TimerFires 100 (ConnectedResume ''D1'' 1),
          TimerFires 100 (ConnectedResume ''D1'' 2)] connected"

text \<open>
  A session in the order of its timers' due times. The loop started by the timer of
  \<open>resetDiscovery\<close> (line 228, due at 1000 ms) writes the first DISCOVER frame; four devices
  answer; the check at 1100 ms starts sampling and polls \<open>A\<close>; the handshakes of the four
  devices run to their end (1110 to 1310 ms). The timer of \<open>connectSerial\<close> (line 48, due
  at 2000 ms) is then the only one pending. In \<open>doublePollTrace\<close> that timer fires, the
  reading of \<open>A\<close> arrives (\<open>A,21.5\<close>: D234), and the check of the second loop (2100 ms) and
  the request timer armed by the reading fire.
\<close>

definition confirmedTrace :: "event list" where
  "confirmedTrace =
     [TimerFires 1000 StartDiscovery,
      Receive (''A,B915'' @ [CHR 0x0A] @ ''B,8976'' @ [CHR 0x0A] @ ''C,9957'' @ [CHR 0x0A]
               @ ''D,E9B0'' @ [CHR 0x0A]),
      TimerFires 100 DiscoveryCheck,
      TimerFires 100 (ConnectedResume ''A'' 0), TimerFires 100 (ConnectedResume ''B'' 0),
      TimerFires 100 (ConnectedResume ''C'' 0), TimerFires 100 (ConnectedResume ''D'' 0),
      TimerFires 100 (ConnectedResume ''A'' 1), TimerFires 100 (ConnectedResume ''B'' 1),
      TimerFires 100 (ConnectedResume ''C'' 1), TimerFires 100 (ConnectedResume ''D'' 1),
      TimerFires 100 (ConnectedResume ''A'' 2), TimerFires 100 (ConnectedResume ''B'' 2),
      TimerFires 100 (ConnectedResume ''C'' 2), TimerFires 100 (ConnectedResume ''D'' 2)]"

definition doublePollTrace :: "event list" where
  "doublePollTrace =
     confirmedTrace
     @ [TimerFires 2000 StartDiscovery, Receive (''A,21.5,D234'' @ [CHR 0x0A]),
        TimerFires 100 DiscoveryCheck, TimerFires 100 RequestTemperature]"

text \<open>
  A session in which the fourth device announces itself with the line \<open>Z,9,B162\<close>, a valid
  frame with the message \<open>Z,9\<close>: its first field \<open>Z\<close> is not a registered address, so
  lines 139--141 register the whole message as an address. The check that follows starts
  sampling.
\<close>

definition commaSampling :: state where
  "commaSampling =
     run [TimerFires 1000 StartDiscovery,
          Receive (''A,B915'' @ [CHR 0x0A] @ ''B,8976'' @ [CHR 0x0A] @ ''C,9957'' @ [CHR 0x0A]
                   @ ''Z,9,B162'' @ [CHR 0x0A]),
          TimerFires 100 DiscoveryCheck] connected"

section \<open>The CRC computes the reference CRC\<close>

lemma crc_top_bit: "(w AND 0x8000 \<noteq> 0) = bit (w :: 32 word) 15"
proof -
  have "(0x8000 :: 32 word) = 2 ^ 15" by simp
  then have "(w AND 0x8000 = 0) = (\<not> bit w 15)"
    by (simp only: and_exp_eq_0_iff_not_bit)
  then show ?thesis by simp
qed

lemma unat_crc_bit: "unat (crc_bit w) = spec_crc_step (unat w)"
proof -
  have m: "(0xFFFF :: 32 word) = mask 16" by (simp add: mask_eq_exp_minus_1)
  have b: "bit (unat w) 15 = bit w 15" by (simp add: bit_unsigned_iff)
  have p: "take_bit 16 (unat (push_bit 1 w)) = take_bit 16 (push_bit 1 (unat w))"
    unfolding unsigned_push_bit_eq by simp
  have "unat (crc_bit w) =
      take_bit 16 (unat (if bit w 15 then push_bit 1 w XOR 0x1021 else push_bit 1 w))"
    unfolding crc_bit_def crc_top_bit m
    by (simp only: unsigned_and_eq flip: take_bit_eq_mask) (simp add: unsigned_take_bit_eq)
  also have "\<dots> = spec_crc_step (unat w)"
    unfolding spec_crc_step_def b
    apply (cases "bit w 15")
     apply (simp_all only: if_True if_False p unsigned_xor_eq take_bit_xor)
    apply simp
    done
  finally show ?thesis .
qed

lemma unat_crc_inner: "unat (crc_inner n w) = (spec_crc_step ^^ n) (unat w)"
  by (induction n arbitrary: w) (simp_all add: unat_crc_bit funpow_swap1)

lemma of_char_less_256: "(of_char c :: nat) < 256"
proof -
  have "(of_char c :: nat) mod 256 = of_char c" by (rule of_char_mod_256)
  then show ?thesis by (metis mod_less_divisor zero_less_numeral)
qed

lemma unat_push_char:
  "unat (push_bit 8 (word_of_nat (of_char c)) :: 32 word) = push_bit 8 (of_char c)"
proof -
  have c: "(of_char c :: nat) < 256" by (rule of_char_less_256)
  have "(of_char c :: nat) < 2 ^ 32" by (rule less_trans [OF c]) simp
  then have u: "unat (word_of_nat (of_char c) :: 32 word) = of_char c"
    by (simp add: unat_of_nat)
  have "(of_char c :: nat) * 256 < 4294967296" using c by linarith
  then have "push_bit 8 (of_char c :: nat) < 2 ^ 32"
    by (simp add: push_bit_eq_mult)
  then have "take_bit 32 (push_bit 8 (of_char c :: nat)) = push_bit 8 (of_char c)"
    by (simp only: take_bit_nat_eq_self_iff)
  then show ?thesis
    unfolding unsigned_push_bit_eq u by simp
qed

lemma unat_crc_char: "unat (crc_char w c) = spec_crc_byte (unat w) (of_char c)"
  by (simp only: crc_char_def spec_crc_byte_def unat_crc_inner unsigned_xor_eq unat_push_char)

lemma unat_crc_fold:
  "unat (foldl crc_char w s) = foldl spec_crc_byte (unat w) (map of_char s)"
  by (induction s arbitrary: w) (simp_all add: unat_crc_char)

lemma spec_crc_step_bound: "spec_crc_step r < 65536"
  using take_bit_nat_less_exp [of 16] by (simp add: spec_crc_step_def)

lemma spec_crc_steps_bound: "0 < n \<Longrightarrow> (spec_crc_step ^^ n) r < 65536"
  by (cases n) (simp_all add: spec_crc_step_bound)

lemma spec_crc_byte_bound: "spec_crc_byte r b < 65536"
  unfolding spec_crc_byte_def by (rule spec_crc_steps_bound) simp

lemma spec_crc_fold_bound: "r < 65536 \<Longrightarrow> foldl spec_crc_byte r bs < 65536"
proof (induction bs arbitrary: r)
  case Nil
  then show ?case by (simp only: foldl_Nil)
next
  case (Cons b bs)
  have "foldl spec_crc_byte (spec_crc_byte r b) bs < 65536"
    by (rule Cons.IH) (rule spec_crc_byte_bound)
  then show ?case by (simp only: foldl_Cons)
qed

lemma spec_crc16_bound: "spec_crc16 bs < 65536"
  unfolding spec_crc16_def by (rule spec_crc_fold_bound) simp

lemma sint_small:
  assumes "unat (w :: 32 word) < 65536"
  shows "sint w = int (unat w)"
proof -
  have "int (unat w) < 65536" using assms by linarith
  then have u: "uint w < 2 ^ 31" by simp
  have "\<not> bit w 31"
  proof
    assume "bit w 31"
    then have "bit (uint w) 31" by (simp add: bit_uint_iff)
    then have "2 ^ 31 \<le> uint w"
      by (metis bit_int_def uint_ge_0 div_pos_pos_trivial even_zero linorder_not_less)
    with u show False by simp
  qed
  moreover have "take_bit 31 (uint w) = uint w"
    by (rule take_bit_int_eq_self) (use u in simp_all)
  ultimately show ?thesis
    by (simp add: sint_uint signed_take_bit_eq_if_positive bit_uint_iff)
qed

lemma unat_crc_register: "unat (foldl crc_char 0xFFFF s) = spec_crc16 (map of_char s)"
  unfolding spec_crc16_def unat_crc_fold by simp

lemma calculateCRC_unat: "calculateCRC s = int (unat (foldl crc_char 0xFFFF s))"
proof -
  have "unat (foldl crc_char 0xFFFF s) < 65536"
    unfolding unat_crc_register by (rule spec_crc16_bound)
  then show ?thesis unfolding calculateCRC_def by (rule sint_small)
qed

text \<open>
  Claim C2. For every string (of code units below 256, so in particular for every ASCII
  string), \<open>calculateCRC\<close> returns the reference 16-bit CRC of the specification
  (polynomial \<open>0x1021\<close>, initial register \<open>0xFFFF\<close>, most significant bit first, each
  byte XORed into the top byte and followed by eight shift steps masked to 16 bits),
  applied to its character codes.
\<close>

theorem calculateCRC_is_reference_crc: "calculateCRC s = int (spec_crc16 (map of_char s))"
proof -
  have "calculateCRC s = int (unat (foldl crc_char 0xFFFF s))"
    by (rule calculateCRC_unat)
  also have "unat (foldl crc_char 0xFFFF s) = foldl spec_crc_byte (unat (0xFFFF :: 32 word)) (map of_char s)"
    by (rule unat_crc_fold)
  also have "unat (0xFFFF :: 32 word) = 0xFFFF" by simp
  finally show ?thesis by (simp add: spec_crc16_def)
qed

section \<open>Hexadecimal text and the round trip of a frame\<close>

lemma hex_digit_value:
  assumes "d < 16"
  shows "hexValue (upperChar (hexDigit d)) = Some d"
proof -
  consider "d = 0" | "d = 1" | "d = 2" | "d = 3" | "d = 4" | "d = 5" | "d = 6" | "d = 7"
    | "d = 8" | "d = 9" | "d = 10" | "d = 11" | "d = 12" | "d = 13" | "d = 14" | "d = 15"
    using assms by atomize_elim arith
  then show ?thesis
    by cases (simp_all add: hexValue_def upperChar_def hexDigit_def)
qed

lemma hexDigit_mod: "hexDigit (n mod 16) = hexDigit n"
  by (simp add: hexDigit_def)

lemma hex_digit_value_mod: "hexValue (upperChar (hexDigit n)) = Some (n mod 16)"
  using hex_digit_value [of "n mod 16"] by (simp add: hexDigit_mod)

lemma digits16_hex: "c \<in> set (toUpperCase (digits16 n)) \<Longrightarrow> isHexDigit c"
proof (induction n rule: digits16.induct)
  case (1 n)
  show ?case
  proof (cases "n < 16")
    case True
    with "1.prems" show ?thesis
      by (simp add: digits16.simps [of n] toUpperCase_def isHexDigit_def hex_digit_value_mod)
  next
    case False
    with "1.prems" "1.IH" show ?thesis
      by (auto simp: digits16.simps [of n] toUpperCase_def isHexDigit_def hex_digit_value_mod)
  qed
qed

lemma digits16_value:
  "foldl (\<lambda>acc c. acc * 16 + the (hexValue c)) 0 (toUpperCase (digits16 n)) = n"
proof (induction n rule: digits16.induct)
  case (1 n)
  show ?case
  proof (cases "n < 16")
    case True
    then show ?thesis
      by (simp add: digits16.simps [of n] toUpperCase_def hex_digit_value_mod)
  next
    case False
    with "1.IH" show ?thesis
      by (simp add: digits16.simps [of n] toUpperCase_def hex_digit_value_mod)
  qed
qed

lemma digits16_nonempty: "digits16 n \<noteq> []"
  by (subst digits16.simps) simp

lemma hex_not_special:
  "isHexDigit c \<Longrightarrow> \<not> isWhiteSpace c \<and> c \<noteq> CHR ''-'' \<and> c \<noteq> CHR ''+'' \<and> c \<noteq> CHR ''x''
     \<and> c \<noteq> CHR ''X'' \<and> c \<noteq> CHR '','' \<and> c \<noteq> CHR 0x0A"
  by (auto simp: isHexDigit_def hexValue_def isWhiteSpace_def split: if_splits)

lemma parseInt16_hex:
  assumes "h \<noteq> []" and "\<forall>c\<in>set h. isHexDigit c"
  shows "parseInt16 h = Some (int (foldl (\<lambda>acc c. acc * 16 + the (hexValue c)) 0 h))"
proof -
  obtain c cs where h: "h = c # cs" using assms(1) by (cases h) auto
  have c: "isHexDigit c" using assms(2) h by simp
  have d: "dropWhile isWhiteSpace h = h" using c hex_not_special h by simp
  have s: "stripHexPrefix h = h"
  proof (cases cs)
    case Nil
    then show ?thesis by (simp add: h stripHexPrefix_def)
  next
    case (Cons e es)
    then have "isHexDigit e" using assms(2) h by simp
    then show ?thesis using Cons hex_not_special by (simp add: h stripHexPrefix_def)
  qed
  have t: "takeWhile isHexDigit h = h" using assms(2) by (simp add: takeWhile_eq_all_conv)
  show ?thesis
    unfolding parseInt16_def Let_def d
    using c hex_not_special [of c] assms(1) by (simp add: h [symmetric] s t) (simp add: h)
qed

lemma parseInt16_toString16:
  assumes "0 \<le> k"
  shows "parseInt16 (toUpperCase (toString16 k)) = Some k"
proof -
  have "toUpperCase (digits16 (nat k)) \<noteq> []" by (simp add: toUpperCase_def digits16_nonempty)
  moreover have "\<forall>c\<in>set (toUpperCase (digits16 (nat k))). isHexDigit c"
    using digits16_hex by blast
  ultimately have "parseInt16 (toUpperCase (digits16 (nat k))) = Some (int (nat k))"
    by (simp add: parseInt16_hex digits16_value)
  then show ?thesis using assms by (simp add: toString16_def)
qed

lemma js_split_nonempty: "js_split sep s \<noteq> []"
  by (induction s) (auto split: list.splits)

lemma js_split_no_sep: "sep \<notin> set s \<Longrightarrow> js_split sep s = [s]"
  by (induction s) auto

lemma js_split_append: "sep \<notin> set a \<Longrightarrow> js_split sep (a @ sep # r) = a # js_split sep r"
  by (induction a) auto

lemma lastIndexOf_append:
  assumes "c \<notin> set t"
  shows "lastIndexOf c (m @ c # t) = Some (length m)"
proof -
  have "takeWhile (\<lambda>x. x \<noteq> c) (rev t @ c # rev m) = rev t"
    using assms by (auto simp: takeWhile_tail)
  then show ?thesis by (simp add: lastIndexOf_def)
qed

lemma lastIndexOf_None: "(lastIndexOf c s = None) = (c \<notin> set s)"
  by (simp add: lastIndexOf_def)

lemma js_trim_id:
  assumes "s \<noteq> []" "\<not> isWhiteSpace (hd s)" "\<not> isWhiteSpace (last s)"
  shows "js_trim s = s"
proof -
  have "dropWhile isWhiteSpace s = s" using assms by (cases s) auto
  moreover have "dropWhile isWhiteSpace (rev s) = rev s"
    using assms by (cases "rev s") (auto simp: last_rev hd_rev)
  ultimately show ?thesis by (simp add: js_trim_def)
qed

lemma set_js_trim: "x \<in> set (js_trim s) \<Longrightarrow> x \<in> set s"
proof -
  assume "x \<in> set (js_trim s)"
  then have "x \<in> set (dropWhile isWhiteSpace (rev (dropWhile isWhiteSpace s)))"
    by (simp add: js_trim_def)
  then have "x \<in> set (rev (dropWhile isWhiteSpace s))" by (rule set_dropWhileD)
  then have "x \<in> set (dropWhile isWhiteSpace s)" by simp
  then show ?thesis by (rule set_dropWhileD)
qed

lemma calculateCRC_nonneg: "0 \<le> calculateCRC m"
  by (simp add: calculateCRC_unat)

lemma crcText_hex: "c \<in> set (crcText m) \<Longrightarrow> isHexDigit c"
  using digits16_hex calculateCRC_nonneg [of m] by (simp add: crcText_def toString16_def)

lemma crcText_nonempty: "crcText m \<noteq> []"
  using calculateCRC_nonneg [of m]
  by (simp add: crcText_def toString16_def toUpperCase_def digits16_nonempty)

lemma parseInt16_crcText: "parseInt16 (crcText m) = Some (calculateCRC m)"
  unfolding crcText_def by (rule parseInt16_toString16) (rule calculateCRC_nonneg)

lemma classify_frame_line: "classify (m @ '','' @ crcText m) = Valid m"
proof -
  have "CHR '','' \<notin> set (crcText m)" using crcText_hex hex_not_special by blast
  then have "lastIndexOf CHR '','' (m @ CHR '','' # crcText m) = Some (length m)"
    by (rule lastIndexOf_append)
  then show ?thesis
    by (simp add: classify_def parseInt16_crcText)
qed

text \<open>The receive path, line by line: what \<open>decode\<close> classifies is what is handled.\<close>

lemma processSerialBuffer_lines:
  "processSerialBuffer s =
     fold handleSerialData (map js_trim (butlast (js_split (CHR 0x0A) (serialBuffer s))))
       (s\<lparr>serialBuffer := last (js_split (CHR 0x0A) (serialBuffer s))\<rparr>)"
  by (simp add: processSerialBuffer_def Let_def fold_map comp_def)

lemma decode_lines:
  "decode buffer = map classify (map js_trim (butlast (js_split (CHR 0x0A) buffer)))"
  by (simp add: decode_def)

subsection \<open>Evaluating the codec on literals\<close>

lemma crc_inner_8:
  "crc_inner 8 crc =
     crc_bit (crc_bit (crc_bit (crc_bit (crc_bit (crc_bit (crc_bit (crc_bit crc)))))))"
  by (simp add: eval_nat_numeral)

lemmas crc_eval = calculateCRC_def crc_char_def crc_bit_def crc_inner_8

lemmas hex_eval = toString16_def digits16.simps hexDigit_def toUpperCase_def upperChar_def

lemmas parse_eval = parseInt16_def isWhiteSpace_def stripHexPrefix_def isHexDigit_def hexValue_def

lemma crc_space_A: "calculateCRC '' A'' = 0x430C" by (simp add: crc_eval)

lemma crc_A: "calculateCRC ''A'' = 0xB915" by (simp add: crc_eval)

text \<open>
  Claim C1, as stated, fails: the message \<open>" A"\<close> is ASCII, but the line of its frame is
  trimmed before it is decoded, so the message recovered is \<open>"A"\<close>, whose CRC is not the
  one in the frame, and the frame is reported as an integrity failure.
\<close>

theorem frame_round_trip_fails_leading_space:
  "ascii '' A'' \<and> decode (encodeFrame '' A'') = [IntegrityError]"
  by (simp add: ascii_def decode_def encodeFrame_def crcText_def crc_space_A crc_A hex_eval js_trim_def classify_def lastIndexOf_def parse_eval)

text \<open>
  Claim C1, amended. For every ASCII message that contains no line feed and does not begin
  with a white-space character, decoding the frame produced by encoding it (message,
  comma, CRC in upper-case hexadecimal, line feed) yields exactly one valid frame, whose
  message is the message encoded, and leaves the receive buffer empty.
\<close>

theorem frame_round_trip:
  assumes "ascii m" and "CHR 0x0A \<notin> set m" and "m \<noteq> [] \<longrightarrow> \<not> isWhiteSpace (hd m)"
  shows "decode (encodeFrame m) = [Valid m]
    \<and> last (js_split (CHR 0x0A) (encodeFrame m)) = []"
proof -
  let ?line = "m @ '','' @ crcText m"
  have nl: "CHR 0x0A \<notin> set ?line"
    using assms(2) crcText_hex hex_not_special by auto
  have e: "encodeFrame m = ?line @ CHR 0x0A # []"
    by (simp add: encodeFrame_def crcText_def)
  have sp: "js_split (CHR 0x0A) (encodeFrame m) = [?line, []]"
    unfolding e using js_split_append [OF nl, of "[]"] by simp
  have "\<not> isWhiteSpace (hd ?line)"
    using assms(3) by (cases m) (simp_all add: isWhiteSpace_def)
  moreover have "\<not> isWhiteSpace (last ?line)"
    using crcText_nonempty [of m] crcText_hex [of "last (crcText m)" m] hex_not_special
    by (simp add: last_append)
  ultimately have "js_trim ?line = ?line" by (intro js_trim_id) simp_all
  then show ?thesis
    unfolding decode_def sp using classify_frame_line [of m] by simp
qed

theorem frame_round_trip_witness:
  "ascii ''DISCOVER'' \<and> CHR 0x0A \<notin> set ''DISCOVER'' \<and> \<not> isWhiteSpace (hd ''DISCOVER'')
   \<and> decode (encodeFrame ''DISCOVER'') = [Valid ''DISCOVER'']
   \<and> last (js_split (CHR 0x0A) (encodeFrame ''DISCOVER'')) = []"
  using frame_round_trip [of "''DISCOVER''"] by (simp add: ascii_def isWhiteSpace_def)

section \<open>The engine: what the handlers change\<close>

lemma logged_fields [simp]:
  "deviceAddresses (logLine l s) = deviceAddresses s"
  "currentDeviceIndex (logLine l s) = currentDeviceIndex s"
  "errorCounters (logLine l s) = errorCounters s"
  "deviceTemperatures (logLine l s) = deviceTemperatures s"
  "connectedDevices (logLine l s) = connectedDevices s"
  "timers (logLine l s) = timers s"
  "written (logLine l s) = written s"
  "isSampling (logLine l s) = isSampling s"
  "discoveryAttempts (logLine l s) = discoveryAttempts s"
  "errorCount (logLine l s) a = errorCount s a"
  by (simp_all add: logLine_def errorCount_def)

lemma count_commas_crcText: "count_list (crcText m) CHR '','' = 0"
  using crcText_hex hex_not_special by (simp add: count_list_0_iff) blast

lemma encodeFrame_crcText: "encodeFrame m = m @ '','' @ crcText m @ [CHR 0x0A]"
  by (simp add: encodeFrame_def crcText_def)

lemma count_commas_encodeFrame:
  "count_list (encodeFrame m) CHR '','' = count_list m CHR '','' + 1"
  by (simp add: encodeFrame_crcText count_commas_crcText)

lemma frame_not_discover:
  assumes "CHR '','' \<in> set m"
  shows "encodeFrame m \<noteq> encodeFrame ''DISCOVER''"
proof
  assume "encodeFrame m = encodeFrame ''DISCOVER''"
  then have "count_list (encodeFrame m) CHR '','' = count_list (encodeFrame ''DISCOVER'') CHR '',''"
    by simp
  then have "count_list m CHR '','' = 0"
    by (simp add: count_commas_encodeFrame)
  with assms show False by (simp add: count_list_0_iff)
qed

lemma keepsDiscovery_refl: "keepsDiscovery s s"
  by (simp add: keepsDiscovery_def)

lemma keepsDiscovery_trans: "keepsDiscovery s t \<Longrightarrow> keepsDiscovery t u \<Longrightarrow> keepsDiscovery s u"
  by (auto simp: keepsDiscovery_def)

lemma keeps_logLine: "keepsDiscovery s (logLine l s)"
  by (simp add: keepsDiscovery_def logLine_def discoverCount_def discoveryPending_def startPending_def cursorOk_def)

lemma keeps_requestTemperature: "keepsDiscovery s (requestTemperature s)"
  by (simp add: keepsDiscovery_def requestTemperature_def logLine_def writeFrame_def Let_def
      discoverCount_def discoveryPending_def startPending_def cursorOk_def frame_not_discover)

lemma next_index_less: "i < n \<Longrightarrow> Suc i mod n < (n::nat)"
  by (cases n) simp_all

lemma keeps_handleCorruptedData: "keepsDiscovery s (handleCorruptedData s)"
  by (auto simp: next_index_less keepsDiscovery_def handleCorruptedData_def logLine_def setTimeout_def Let_def
      discoverCount_def discoveryPending_def startPending_def cursorOk_def arrayAt_def split: option.splits)

lemma keeps_sendConnectedLoop: "keepsDiscovery s (sendConnectedLoop i a s)"
  by (simp add: keepsDiscovery_def sendConnectedLoop_def logLine_def setTimeout_def
      writeFrame_def Let_def discoverCount_def discoveryPending_def startPending_def cursorOk_def
      frame_not_discover)

lemma keeps_registerDevice: "keepsDiscovery s (registerDevice m s)"
  by (auto simp: keepsDiscovery_def registerDevice_def sendConnectedMessage_def
      sendConnectedLoop_def logLine_def setTimeout_def
      writeFrame_def Let_def discoverCount_def discoveryPending_def startPending_def cursorOk_def
      connectedMessageRetries_def frame_not_discover)

lemma keeps_handleMessage: "keepsDiscovery s (handleMessage m s)"
proof -
  have "keepsDiscovery s
     (let s1 = s\<lparr>deviceTemperatures := (deviceTemperatures s)(a \<mapsto> t),
                  errorCounters := (errorCounters s)(a \<mapsto> 0),
                  currentDeviceIndex := (currentDeviceIndex s + 1) mod length (deviceAddresses s)\<rparr>
      in if isSampling s1 then setTimeout RequestTemperature waitTime s1 else s1)"
    if "a \<in> set (deviceAddresses s)" for a t
  proof -
    have "0 < length (deviceAddresses s)" using that by (cases "deviceAddresses s") auto
    then show ?thesis
      by (simp add: keepsDiscovery_def setTimeout_def Let_def discoverCount_def
          discoveryPending_def startPending_def cursorOk_def)
  qed
  then show ?thesis
    by (auto simp: handleMessage_def keeps_registerDevice split: list.splits)
qed

lemma keeps_handleSerialData: "keepsDiscovery s (handleSerialData d s)"
  unfolding handleSerialData_def
  by (auto split: frame.splits
      intro: keepsDiscovery_refl keepsDiscovery_trans [OF keeps_logLine]
        keepsDiscovery_trans [OF keeps_logLine keeps_handleCorruptedData]
        keepsDiscovery_trans [OF keeps_logLine keeps_handleMessage]
        keepsDiscovery_trans [OF keepsDiscovery_trans [OF keeps_logLine keeps_logLine] keeps_handleCorruptedData])

lemma keeps_fold_handleSerialData:
  "keepsDiscovery s (fold (\<lambda>line. handleSerialData (f line)) ls s)"
proof (induction ls arbitrary: s)
  case Nil
  show ?case by (simp add: keepsDiscovery_refl)
next
  case (Cons l ls)
  show ?case
    using keepsDiscovery_trans [OF keeps_handleSerialData Cons.IH] by simp
qed

lemma keeps_processSerialBuffer: "keepsDiscovery s (processSerialBuffer (s\<lparr>serialBuffer := b\<rparr>))"
proof -
  have k: "keepsDiscovery s (s\<lparr>serialBuffer := c\<rparr>)" for c
    by (simp add: keepsDiscovery_def discoverCount_def discoveryPending_def startPending_def cursorOk_def)
  have "processSerialBuffer (s\<lparr>serialBuffer := b\<rparr>) =
      fold (\<lambda>line. handleSerialData (js_trim line)) (butlast (js_split (CHR 0x0A) b))
        (s\<lparr>serialBuffer := last (js_split (CHR 0x0A) b)\<rparr>)"
    by (simp add: processSerialBuffer_def Let_def)
  then show ?thesis
    using keepsDiscovery_trans [OF k keeps_fold_handleSerialData] by simp
qed

subsection \<open>An invariant of every session without a reset\<close>

lemma startDiscovery_inv:
  assumes "discoverCount s = discoveryAttempts s" and "discoveryAttempts s \<le> 1000"
  shows "discoverCount (startDiscovery s) = discoveryAttempts (startDiscovery s)
     \<and> discoveryAttempts (startDiscovery s) \<le> 1000
     \<and> isSampling (startDiscovery s) = isSampling s
     \<and> deviceAddresses (startDiscovery s) = deviceAddresses s
     \<and> currentDeviceIndex (startDiscovery s) = currentDeviceIndex s
     \<and> (discoveryPending (startDiscovery s) \<or> discoveryAttempts (startDiscovery s) = 1000)"
  using assms
  by (simp add: startDiscovery_def maxDiscoveryAttempts_def logLine_def setTimeout_def
      writeFrame_def discoverCount_def discoveryPending_def startPending_def)

lemma engineInv_keeps: "engineInv s \<Longrightarrow> keepsDiscovery s s' \<Longrightarrow> engineInv s'"
  by (auto simp: engineInv_def keepsDiscovery_def)

lemma engineInv_startDiscovery:
  assumes "discoverCount s = discoveryAttempts s" and "discoveryAttempts s \<le> 1000"
    and "isSampling s \<longrightarrow> 4 \<le> length (deviceAddresses s)" and "cursorOk s"
  shows "engineInv (startDiscovery s)"
  using startDiscovery_inv [OF assms(1,2)] assms(3,4)
  by (auto simp: engineInv_def cursorOk_def)

lemma engineInv_discoveryCheck:
  assumes "discoverCount s = discoveryAttempts s" and "discoveryAttempts s \<le> 1000"
    and "isSampling s \<longrightarrow> 4 \<le> length (deviceAddresses s)" and "cursorOk s"
  shows "engineInv (discoveryCheck s)"
proof (cases "length (deviceAddresses s) < 4")
  case True
  have "engineInv (startDiscovery (logLine (Retrying (discoveryAttempts s)) s))"
    using assms
    by (intro engineInv_startDiscovery) (simp_all add: logLine_def discoverCount_def cursorOk_def)
  with True show ?thesis by (simp add: discoveryCheck_def)
next
  case False
  let ?t = "(logLine DiscoveryComplete s)\<lparr>isSampling := True\<rparr>"
  have "engineInv ?t"
    using assms False by (simp add: engineInv_def logLine_def discoverCount_def cursorOk_def)
  then have "engineInv (requestTemperature ?t)"
    using keeps_requestTemperature by (rule engineInv_keeps)
  with False show ?thesis by (simp add: discoveryCheck_def)
qed

lemma engineInv_connect: "engineInv (connectSerial initialState)"
  by (simp add: engineInv_def connectSerial_def resetDiscovery_def initialState_def logLine_def
      setTimeout_def writeFrame_def discoverCount_def discoveryPending_def startPending_def cursorOk_def
      encodeFrame_crcText)

lemma list_ex_remove1: "\<not> P x \<Longrightarrow> list_ex P (remove1 x xs) = list_ex P xs"
  by (induction xs) auto

lemma engineInv_fire:
  assumes "engineInv s" and "(d, cb) \<in> set (timers s)"
  shows "engineInv (fire cb (s\<lparr>timers := remove1 (d, cb) (timers s)\<rparr>))"
proof -
  let ?t = "s\<lparr>timers := remove1 (d, cb) (timers s)\<rparr>"
  have base: "discoverCount ?t = discoveryAttempts ?t" "discoveryAttempts ?t \<le> 1000"
    "isSampling ?t \<longrightarrow> 4 \<le> length (deviceAddresses ?t)" "cursorOk ?t"
    using assms(1) by (simp_all add: engineInv_def discoverCount_def cursorOk_def)
  show ?thesis
  proof (cases cb)
    case StartDiscovery
    then show ?thesis using engineInv_startDiscovery [OF base] by simp
  next
    case DiscoveryCheck
    then show ?thesis using engineInv_discoveryCheck [OF base] by simp
  next
    case RequestTemperature
    then have "discoveryPending ?t = discoveryPending s"
      by (simp add: discoveryPending_def startPending_def list_ex_remove1)
    then have "engineInv ?t"
      using assms(1) by (simp add: engineInv_def discoverCount_def cursorOk_def)
    then show ?thesis
      using RequestTemperature engineInv_keeps [OF _ keeps_requestTemperature] by simp
  next
    case (ConnectedResume a i)
    then have "discoveryPending ?t = discoveryPending s"
      by (simp add: discoveryPending_def startPending_def list_ex_remove1)
    then have "engineInv ?t"
      using assms(1) by (simp add: engineInv_def discoverCount_def cursorOk_def)
    then show ?thesis
      using ConnectedResume engineInv_keeps [OF _ keeps_sendConnectedLoop] by simp
  qed
qed

lemma engineInv_step:
  assumes "engineInv s" and "e \<noteq> ClickReset"
  shows "engineInv (step e s)"
proof (cases e)
  case (Receive chunk)
  then show ?thesis
    using engineInv_keeps [OF assms(1) keeps_processSerialBuffer] by simp
next
  case (TimerFires d cb)
  then show ?thesis using assms(1) engineInv_fire by simp
next
  case ClickReset
  with assms(2) show ?thesis by simp
qed

lemma engineInv_run:
  assumes "engineInv s" and "ClickReset \<notin> set evs"
  shows "engineInv (run evs s)"
  using assms unfolding run_def
  by (induction evs arbitrary: s) (auto simp: engineInv_step)

subsection \<open>Once four devices are registered, no DISCOVER frame is written\<close>

lemma discoveryOver_keeps:
  assumes "discoveryOver s" and "keepsDiscovery s s'"
  shows "discoveryOver s' \<and> discoverCount s' = discoverCount s"
  using assms by (auto simp: discoveryOver_def keepsDiscovery_def)

lemma keeps_remove1_other:
  assumes "cb \<noteq> StartDiscovery" and "cb \<noteq> DiscoveryCheck"
  shows "keepsDiscovery s (s\<lparr>timers := remove1 (d, cb) (timers s)\<rparr>)"
  using assms
  by (simp add: keepsDiscovery_def discoverCount_def discoveryPending_def startPending_def
      cursorOk_def list_ex_remove1)

lemma discoveryOver_check:
  assumes "discoveryOver s"
  shows "discoveryOver (discoveryCheck (s\<lparr>timers := remove1 (d, DiscoveryCheck) (timers s)\<rparr>))
    \<and> discoverCount (discoveryCheck (s\<lparr>timers := remove1 (d, DiscoveryCheck) (timers s)\<rparr>))
        = discoverCount s"
proof -
  let ?t = "s\<lparr>timers := remove1 (d, DiscoveryCheck) (timers s)\<rparr>"
  let ?u = "(logLine DiscoveryComplete ?t)\<lparr>isSampling := True\<rparr>"
  have n: "\<not> length (deviceAddresses ?t) < 4" using assms by (simp add: discoveryOver_def)
  have "startPending ?t = startPending s"
    by (simp add: startPending_def list_ex_remove1)
  then have u: "discoveryOver ?u" "discoverCount ?u = discoverCount s"
    using assms by (simp_all add: discoveryOver_def startPending_def discoverCount_def logLine_def)
  have "discoveryCheck ?t = requestTemperature ?u"
    using n by (simp add: discoveryCheck_def)
  then show ?thesis
    using discoveryOver_keeps [OF u(1) keeps_requestTemperature] u(2) by simp
qed

lemma discoveryOver_step:
  assumes "discoveryOver s" and "e \<noteq> ClickReset"
  shows "discoveryOver (step e s) \<and> discoverCount (step e s) = discoverCount s"
proof (cases e)
  case (Receive chunk)
  then show ?thesis
    using discoveryOver_keeps [OF assms(1) keeps_processSerialBuffer] by simp
next
  case ClickReset
  with assms(2) show ?thesis by simp
next
  case (TimerFires d cb)
  show ?thesis
  proof (cases "(d, cb) \<in> set (timers s)")
    case False
    then show ?thesis using TimerFires assms(1) by simp
  next
    case True
    let ?t = "s\<lparr>timers := remove1 (d, cb) (timers s)\<rparr>"
    show ?thesis
    proof (cases cb)
      case StartDiscovery
      then have "startPending s"
        using True by (force simp: startPending_def list_ex_iff)
      then show ?thesis using assms(1) by (simp add: discoveryOver_def)
    next
      case DiscoveryCheck
      then show ?thesis using TimerFires True discoveryOver_check [OF assms(1), of d] by simp
    next
      case RequestTemperature
      then have "keepsDiscovery s ?t" by (simp add: keeps_remove1_other)
      then have "keepsDiscovery s (requestTemperature ?t)"
        using keeps_requestTemperature by (rule keepsDiscovery_trans)
      then show ?thesis
        using TimerFires True RequestTemperature discoveryOver_keeps [OF assms(1)] by simp
    next
      case (ConnectedResume a i)
      then have "keepsDiscovery s ?t" by (simp add: keeps_remove1_other)
      then have "keepsDiscovery s (sendConnectedLoop (i + 1) a ?t)"
        using keeps_sendConnectedLoop by (rule keepsDiscovery_trans)
      then show ?thesis
        using TimerFires True ConnectedResume discoveryOver_keeps [OF assms(1)] by simp
    qed
  qed
qed

lemma discoveryOver_run:
  assumes "discoveryOver s" and "ClickReset \<notin> set evs"
  shows "discoveryOver (run evs s) \<and> discoverCount (run evs s) = discoverCount s"
  using assms unfolding run_def
proof (induction evs arbitrary: s)
  case Nil
  then show ?case by simp
next
  case (Cons e evs)
  have e: "e \<noteq> ClickReset" and r: "ClickReset \<notin> set evs" using Cons.prems(2) by auto
  note st = discoveryOver_step [OF Cons.prems(1) e]
  show ?case
    using Cons.IH [of "step e s"] st r by simp
qed

subsection \<open>Registered addresses have their own counters\<close>

lemma registryOwn_logLine [simp]: "registryOwn (logLine l s) = registryOwn s"
  by (simp add: registryOwn_def logLine_def)

lemma registryOwn_requestTemperature: "registryOwn s \<Longrightarrow> registryOwn (requestTemperature s)"
  by (simp add: registryOwn_def requestTemperature_def Let_def logLine_def writeFrame_def)

lemma registryOwn_handleCorruptedData: "registryOwn s \<Longrightarrow> registryOwn (handleCorruptedData s)"
  by (auto simp: registryOwn_def handleCorruptedData_def Let_def logLine_def setTimeout_def
      list_all_iff split: option.splits)

lemma registryOwn_sendConnectedLoop: "registryOwn s \<Longrightarrow> registryOwn (sendConnectedLoop i a s)"
  by (auto simp: registryOwn_def sendConnectedLoop_def Let_def logLine_def setTimeout_def
      writeFrame_def list_all_iff)

lemma registryOwn_registerDevice: "registryOwn s \<Longrightarrow> registryOwn (registerDevice m s)"
  by (auto simp: registryOwn_def registerDevice_def sendConnectedMessage_def
      sendConnectedLoop_def Let_def logLine_def setTimeout_def writeFrame_def list_all_iff)

lemma registryOwn_handleMessage: "registryOwn s \<Longrightarrow> registryOwn (handleMessage m s)"
  by (auto simp: handleMessage_def registryOwn_registerDevice Let_def split: list.splits)
    (auto simp: registryOwn_def setTimeout_def list_all_iff)

lemma registryOwn_handleSerialData: "registryOwn s \<Longrightarrow> registryOwn (handleSerialData d s)"
  by (auto simp: handleSerialData_def registryOwn_handleMessage registryOwn_handleCorruptedData
      split: frame.splits)

lemma registryOwn_fold:
  "registryOwn s \<Longrightarrow> registryOwn (fold (\<lambda>line. handleSerialData (f line)) ls s)"
  by (induction ls arbitrary: s) (simp_all add: registryOwn_handleSerialData)

lemma registryOwn_processSerialBuffer:
  assumes "registryOwn s"
  shows "registryOwn (processSerialBuffer (s\<lparr>serialBuffer := b\<rparr>))"
proof -
  have "registryOwn (s\<lparr>serialBuffer := c\<rparr>)" for c
    using assms by (simp add: registryOwn_def)
  then show ?thesis
    by (simp add: processSerialBuffer_def Let_def registryOwn_fold)
qed

lemma registryOwn_startDiscovery: "registryOwn s \<Longrightarrow> registryOwn (startDiscovery s)"
  by (simp add: registryOwn_def startDiscovery_def logLine_def setTimeout_def writeFrame_def)

lemma registryOwn_discoveryCheck: "registryOwn s \<Longrightarrow> registryOwn (discoveryCheck s)"
proof -
  assume r: "registryOwn s"
  have "registryOwn ((logLine DiscoveryComplete s)\<lparr>isSampling := True\<rparr>)"
    using r by (simp add: registryOwn_def logLine_def)
  then show ?thesis
    using r by (simp add: discoveryCheck_def registryOwn_startDiscovery
        registryOwn_requestTemperature)
qed

lemma registryOwn_resetDiscovery: "registryOwn (resetDiscovery s)"
  by (simp add: registryOwn_def resetDiscovery_def logLine_def setTimeout_def writeFrame_def)

lemma registryOwn_step: "registryOwn s \<Longrightarrow> registryOwn (step e s)"
proof (cases e)
  case (Receive chunk)
  assume "registryOwn s"
  then show ?thesis using Receive by (simp add: registryOwn_processSerialBuffer)
next
  case (TimerFires d cb)
  assume r: "registryOwn s"
  then have "registryOwn (s\<lparr>timers := remove1 (d, cb) (timers s)\<rparr>)"
    by (simp add: registryOwn_def)
  then have "registryOwn (fire cb (s\<lparr>timers := remove1 (d, cb) (timers s)\<rparr>))"
    by (cases cb)
      (simp_all add: registryOwn_startDiscovery registryOwn_discoveryCheck
        registryOwn_requestTemperature registryOwn_sendConnectedLoop)
  then show ?thesis using TimerFires r by simp
next
  case ClickReset
  then show ?thesis by (simp add: registryOwn_resetDiscovery)
qed

lemma registryOwn_run: "registryOwn (run evs (connectSerial initialState))"
proof -
  have "registryOwn (setTimeout cb d (resetDiscovery t))" for cb d t
    using registryOwn_resetDiscovery [of t] by (simp add: registryOwn_def setTimeout_def)
  then have "registryOwn (connectSerial initialState)" by (simp add: connectSerial_def)
  moreover have "registryOwn t \<Longrightarrow> registryOwn (fold step es t)" for es t
    by (induction es arbitrary: t) (simp_all add: registryOwn_step)
  ultimately show ?thesis by (simp add: run_def)
qed

subsection \<open>Inherited names never enter the registry\<close>

lemma noInheritedKeys_logLine [simp]: "noInheritedKeys (logLine l s) = noInheritedKeys s"
  by (simp add: noInheritedKeys_def logLine_def)

lemma noInheritedKeys_requestTemperature:
  "noInheritedKeys s \<Longrightarrow> noInheritedKeys (requestTemperature s)"
  by (simp add: noInheritedKeys_def requestTemperature_def Let_def logLine_def writeFrame_def)

lemma noInheritedKeys_handleCorruptedData:
  "noInheritedKeys s \<Longrightarrow> noInheritedKeys (handleCorruptedData s)"
  by (auto simp: noInheritedKeys_def handleCorruptedData_def Let_def logLine_def setTimeout_def
      split: option.splits)

lemma noInheritedKeys_sendConnectedLoop:
  assumes "noInheritedKeys s" and "\<not> inheritedName a"
  shows "noInheritedKeys (sendConnectedLoop i a s)"
  using assms
  by (auto simp: noInheritedKeys_def sendConnectedLoop_def Let_def logLine_def setTimeout_def
      writeFrame_def list_all_iff inheritedName_def)

lemma noInheritedKeys_registerDevice:
  assumes "noInheritedKeys s"
  shows "noInheritedKeys (registerDevice m s)"
proof (cases "\<not> truthyProperty (connectedDevices s) m \<and> m \<notin> set (deviceAddresses s)")
  case False
  then show ?thesis using assms by (auto simp: registerDevice_def)
next
  case True
  have m: "\<not> inheritedName m"
  proof
    assume i: "inheritedName m"
    then have "connectedDevices s m = None"
      using assms by (simp add: noInheritedKeys_def list_all_iff inheritedName_def)
    then have "truthyProperty (connectedDevices s) m"
      using i by (simp add: truthyProperty_def inheritedName_def)
    with True show False by simp
  qed
  let ?t = "s\<lparr>deviceAddresses := deviceAddresses s @ [m],
                deviceTemperatures := (deviceTemperatures s)(m \<mapsto> ''N/A''),
                errorCounters := (errorCounters s)(m \<mapsto> 0),
                confirmationRetries := (confirmationRetries s)(m \<mapsto> 0),
                connectedDevices := (connectedDevices s)(m \<mapsto> False)\<rparr>"
  have "noInheritedKeys ?t"
    using assms m by (auto simp: noInheritedKeys_def list_all_iff inheritedName_def)
  then have "noInheritedKeys (sendConnectedLoop 0 m ?t)"
    using m by (rule noInheritedKeys_sendConnectedLoop)
  then show ?thesis using True by (simp add: registerDevice_def sendConnectedMessage_def)
qed

lemma noInheritedKeys_handleMessage:
  "noInheritedKeys s \<Longrightarrow> noInheritedKeys (handleMessage m s)"
  by (auto simp: handleMessage_def noInheritedKeys_registerDevice Let_def split: list.splits)
    (auto simp: noInheritedKeys_def setTimeout_def)

lemma noInheritedKeys_handleSerialData:
  "noInheritedKeys s \<Longrightarrow> noInheritedKeys (handleSerialData d s)"
  by (auto simp: handleSerialData_def noInheritedKeys_handleMessage
      noInheritedKeys_handleCorruptedData split: frame.splits)

lemma noInheritedKeys_fold:
  "noInheritedKeys s \<Longrightarrow> noInheritedKeys (fold (\<lambda>line. handleSerialData (f line)) ls s)"
  by (induction ls arbitrary: s) (simp_all add: noInheritedKeys_handleSerialData)

lemma noInheritedKeys_processSerialBuffer:
  assumes "noInheritedKeys s"
  shows "noInheritedKeys (processSerialBuffer (s\<lparr>serialBuffer := b\<rparr>))"
proof -
  have "noInheritedKeys (s\<lparr>serialBuffer := c\<rparr>)" for c
    using assms by (simp add: noInheritedKeys_def)
  then show ?thesis
    by (simp add: processSerialBuffer_def Let_def noInheritedKeys_fold)
qed

lemma noInheritedKeys_startDiscovery: "noInheritedKeys s \<Longrightarrow> noInheritedKeys (startDiscovery s)"
  by (simp add: noInheritedKeys_def startDiscovery_def logLine_def setTimeout_def writeFrame_def)

lemma noInheritedKeys_discoveryCheck:
  assumes "noInheritedKeys s"
  shows "noInheritedKeys (discoveryCheck s)"
proof -
  have "noInheritedKeys ((logLine DiscoveryComplete s)\<lparr>isSampling := True\<rparr>)"
    using assms by (simp add: noInheritedKeys_def logLine_def)
  then show ?thesis
    using assms by (simp add: discoveryCheck_def noInheritedKeys_startDiscovery
        noInheritedKeys_requestTemperature)
qed

lemma noInheritedKeys_resetDiscovery:
  assumes "noInheritedKeys s"
  shows "noInheritedKeys (resetDiscovery s)"
  using assms
  by (simp add: noInheritedKeys_def resetDiscovery_def logLine_def setTimeout_def writeFrame_def
      list_all_iff)

lemma noInheritedKeys_remove1:
  assumes "noInheritedKeys s"
  shows "noInheritedKeys (s\<lparr>timers := remove1 t (timers s)\<rparr>)"
proof -
  have "set (remove1 t (timers s)) \<subseteq> set (timers s)" by (rule set_remove1_subset)
  then show ?thesis using assms by (auto simp: noInheritedKeys_def list_all_iff)
qed

lemma noInheritedKeys_step:
  assumes "noInheritedKeys s"
  shows "noInheritedKeys (step e s)"
proof (cases e)
  case (Receive chunk)
  then show ?thesis using assms by (simp add: noInheritedKeys_processSerialBuffer)
next
  case (TimerFires d cb)
  show ?thesis
  proof (cases "(d, cb) \<in> set (timers s)")
    case False
    then show ?thesis using TimerFires assms by simp
  next
    case True
    let ?t = "s\<lparr>timers := remove1 (d, cb) (timers s)\<rparr>"
    have t: "noInheritedKeys ?t" using assms by (rule noInheritedKeys_remove1)
    have "noInheritedKeys (fire cb ?t)"
    proof (cases cb)
      case (ConnectedResume a i)
      then have "\<not> inheritedName a"
        using True assms by (auto simp: noInheritedKeys_def list_all_iff)
      then show ?thesis
        using ConnectedResume t by (simp add: noInheritedKeys_sendConnectedLoop)
    qed (use t in \<open>simp_all add: noInheritedKeys_startDiscovery noInheritedKeys_discoveryCheck
        noInheritedKeys_requestTemperature\<close>)
    then show ?thesis using TimerFires True by simp
  qed
next
  case ClickReset
  then show ?thesis using assms by (simp add: noInheritedKeys_resetDiscovery)
qed

lemma noInheritedKeys_run: "noInheritedKeys (run evs (connectSerial initialState))"
proof -
  have "noInheritedKeys (connectSerial initialState)"
    by (simp add: noInheritedKeys_def connectSerial_def resetDiscovery_def initialState_def
        logLine_def setTimeout_def writeFrame_def list_all_iff)
  moreover have "noInheritedKeys t \<Longrightarrow> noInheritedKeys (fold step es t)" for es t
    by (induction es arbitrary: t) (simp_all add: noInheritedKeys_step)
  ultimately show ?thesis by (simp add: run_def)
qed

subsection \<open>Corrupted frames\<close>

lemma handleSerialData_corrupted:
  assumes "isCorrupted data"
  shows "\<exists>l. handleSerialData data s = handleCorruptedData (logLine l (logLine (Received data) s))"
  using assms by (auto simp: isCorrupted_def handleSerialData_def)

lemma handleCorruptedData_fields:
  assumes "arrayAt (deviceAddresses s) (currentDeviceIndex s) = Some a" and "a \<noteq> []"
  shows "errorCounters (handleCorruptedData s) = (errorCounters s)(a \<mapsto> errorCount s a + 1)"
    and "currentDeviceIndex (handleCorruptedData s) =
          (if errorCount s a + 1 > 5
           then (currentDeviceIndex s + 1) mod length (deviceAddresses s)
           else currentDeviceIndex s)"
    and "deviceAddresses (handleCorruptedData s) = deviceAddresses s"
    and "timers (handleCorruptedData s) = timers s @ [(100, RequestTemperature)]"
    and "written (handleCorruptedData s) = written s"
    and "isSampling (handleCorruptedData s) = isSampling s"
  using assms
  by (simp_all add: handleCorruptedData_def errorCount_def Let_def setTimeout_def logLine_def
      maxErrorCount_def waitTime_def)

lemma handleCorruptedData_unattributed:
  assumes "arrayAt (deviceAddresses s) (currentDeviceIndex s) = None
     \<or> arrayAt (deviceAddresses s) (currentDeviceIndex s) = Some []"
  shows "handleCorruptedData s = s"
  using assms by (auto simp: handleCorruptedData_def)

lemma corrupted_fields:
  assumes "isCorrupted data"
    and "arrayAt (deviceAddresses s) (currentDeviceIndex s) = Some a" and "a \<noteq> []"
  shows "errorCounters (handleSerialData data s) = (errorCounters s)(a \<mapsto> errorCount s a + 1)"
    and "currentDeviceIndex (handleSerialData data s) =
          (if errorCount s a + 1 > 5
           then (currentDeviceIndex s + 1) mod length (deviceAddresses s)
           else currentDeviceIndex s)"
    and "deviceAddresses (handleSerialData data s) = deviceAddresses s"
    and "timers (handleSerialData data s) = timers s @ [(100, RequestTemperature)]"
    and "written (handleSerialData data s) = written s"
    and "isSampling (handleSerialData data s) = isSampling s"
proof -
  obtain l where h: "handleSerialData data s =
      handleCorruptedData (logLine l (logLine (Received data) s))"
    using handleSerialData_corrupted [OF assms(1)] by blast
  let ?t = "logLine l (logLine (Received data) s)"
  have a: "arrayAt (deviceAddresses ?t) (currentDeviceIndex ?t) = Some a"
    using assms(2) by simp
  show "errorCounters (handleSerialData data s) = (errorCounters s)(a \<mapsto> errorCount s a + 1)"
    unfolding h handleCorruptedData_fields(1) [OF a assms(3)] by simp
  show "currentDeviceIndex (handleSerialData data s) =
          (if errorCount s a + 1 > 5
           then (currentDeviceIndex s + 1) mod length (deviceAddresses s)
           else currentDeviceIndex s)"
    unfolding h handleCorruptedData_fields(2) [OF a assms(3)] by simp
  show "deviceAddresses (handleSerialData data s) = deviceAddresses s"
    unfolding h handleCorruptedData_fields(3) [OF a assms(3)] by simp
  show "timers (handleSerialData data s) = timers s @ [(100, RequestTemperature)]"
    unfolding h handleCorruptedData_fields(4) [OF a assms(3)] by simp
  show "written (handleSerialData data s) = written s"
    unfolding h handleCorruptedData_fields(5) [OF a assms(3)] by simp
  show "isSampling (handleSerialData data s) = isSampling s"
    unfolding h handleCorruptedData_fields(6) [OF a assms(3)] by simp
qed


lemma corrupted_unattributed:
  assumes "isCorrupted data"
    and "arrayAt (deviceAddresses s) (currentDeviceIndex s) = None
       \<or> arrayAt (deviceAddresses s) (currentDeviceIndex s) = Some []"
  shows "\<exists>l. handleSerialData data s = logLine l (logLine (Received data) s)"
proof -
  obtain l where h: "handleSerialData data s =
      handleCorruptedData (logLine l (logLine (Received data) s))"
    using handleSerialData_corrupted [OF assms(1)] by blast
  have "handleCorruptedData (logLine l (logLine (Received data) s)) =
      logLine l (logLine (Received data) s)"
    by (rule handleCorruptedData_unattributed) (use assms(2) in simp)
  with h show ?thesis by auto
qed

lemma corrupted_writes_nothing:
  assumes "isCorrupted data"
  shows "written (handleSerialData data s) = written s
    \<and> isSampling (handleSerialData data s) = isSampling s
    \<and> deviceAddresses (handleSerialData data s) = deviceAddresses s"
proof -
  obtain l where h: "handleSerialData data s =
      handleCorruptedData (logLine l (logLine (Received data) s))"
    using handleSerialData_corrupted [OF assms(1)] by blast
  have "written (handleCorruptedData t) = written t \<and> isSampling (handleCorruptedData t) = isSampling t
     \<and> deviceAddresses (handleCorruptedData t) = deviceAddresses t" for t
    by (auto simp: handleCorruptedData_def Let_def setTimeout_def logLine_def split: option.splits)
  then show ?thesis unfolding h by simp
qed

lemma no_comma_classify:
  assumes "CHR '','' \<notin> set data" and "data \<noteq> []"
  shows "classify data = FramingError"
  using assms by (simp add: classify_def lastIndexOf_def)

lemma comma_classify:
  assumes "CHR '','' \<in> set data"
  shows "classify data \<noteq> FramingError"
  using assms by (auto simp: classify_def lastIndexOf_def Let_def)

subsection \<open>Valid frames: readings and announcements\<close>

lemma handleSerialData_valid:
  "classify data = Valid m \<Longrightarrow>
     handleSerialData data s = handleMessage m (logLine (Received data) s)"
  by (simp add: handleSerialData_def)

lemma classify_nonempty: "classify data \<noteq> Ignored \<Longrightarrow> data \<noteq> []"
  by (auto simp: classify_def)

lemma js_split_two:
  assumes "CHR '','' \<notin> set a" and "CHR '','' \<notin> set v"
  shows "js_split CHR '','' (a @ '','' @ v) = [a, v]"
  using js_split_append [OF assms(1), of v] js_split_no_sep [OF assms(2)] by simp

lemma js_split_hd: "CHR '','' \<in> set m \<Longrightarrow> \<exists>a t r. js_split CHR '','' m = a # t # r"
proof (induction m)
  case Nil
  then show ?case by simp
next
  case (Cons c m)
  show ?case
  proof (cases "c = CHR '',''")
    case True
    then show ?thesis using js_split_nonempty [of "CHR '',''" m] by (cases "js_split CHR '','' m") auto
  next
    case False
    then have "CHR '','' \<in> set m" using Cons.prems by simp
    then obtain a t r where "js_split CHR '','' m = a # t # r" using Cons.IH by blast
    then show ?thesis using False by simp
  qed
qed

lemma handleMessage_reading:
  assumes "js_split CHR '','' m = a # v # r" and "CHR '','' \<in> set m"
    and "a \<in> set (deviceAddresses s)"
  shows "handleMessage m s =
     (let s1 = s\<lparr>deviceTemperatures := (deviceTemperatures s)(a \<mapsto> v),
                  errorCounters := (errorCounters s)(a \<mapsto> 0),
                  currentDeviceIndex := (currentDeviceIndex s + 1) mod length (deviceAddresses s)\<rparr>
      in if isSampling s1 then setTimeout RequestTemperature waitTime s1 else s1)"
  using assms by (simp add: handleMessage_def)

lemma handleMessage_other:
  assumes "CHR '','' \<notin> set m \<or> hd (js_split CHR '','' m) \<notin> set (deviceAddresses s)"
  shows "handleMessage m s = registerDevice m s"
proof (cases "CHR '','' \<in> set m")
  case True
  then obtain a t r where sp: "js_split CHR '','' m = a # t # r" using js_split_hd by blast
  then show ?thesis using assms True by (simp add: handleMessage_def)
next
  case False
  then show ?thesis by (simp add: handleMessage_def)
qed

lemma reading_fields:
  assumes "a \<in> set (deviceAddresses s)" and "CHR '','' \<notin> set a" and "CHR '','' \<notin> set v"
  shows "deviceTemperatures (handleSerialData (readingLine a v) s) = (deviceTemperatures s)(a \<mapsto> v)"
    and "errorCounters (handleSerialData (readingLine a v) s) = (errorCounters s)(a \<mapsto> 0)"
    and "currentDeviceIndex (handleSerialData (readingLine a v) s) =
           (currentDeviceIndex s + 1) mod length (deviceAddresses s)"
    and "deviceAddresses (handleSerialData (readingLine a v) s) = deviceAddresses s"
    and "timers (handleSerialData (readingLine a v) s) =
           timers s @ (if isSampling s then [(100, RequestTemperature)] else [])"
    and "written (handleSerialData (readingLine a v) s) = written s"
    and "isSampling (handleSerialData (readingLine a v) s) = isSampling s"
    and "connectedDevices (handleSerialData (readingLine a v) s) = connectedDevices s"
proof -
  let ?m = "a @ '','' @ v"
  have c: "classify (readingLine a v) = Valid ?m"
    unfolding readingLine_def using classify_frame_line [of ?m] by simp
  have sp: "js_split CHR '','' ?m = a # v # []" using js_split_two [OF assms(2,3)] .
  have h: "handleSerialData (readingLine a v) s =
      handleMessage ?m (logLine (Received (readingLine a v)) s)"
    using handleSerialData_valid [OF c] .
  note r = handleMessage_reading [OF sp, of "logLine (Received (readingLine a v)) s"]
  show "deviceTemperatures (handleSerialData (readingLine a v) s) = (deviceTemperatures s)(a \<mapsto> v)"
    and "errorCounters (handleSerialData (readingLine a v) s) = (errorCounters s)(a \<mapsto> 0)"
    and "currentDeviceIndex (handleSerialData (readingLine a v) s) =
           (currentDeviceIndex s + 1) mod length (deviceAddresses s)"
    and "deviceAddresses (handleSerialData (readingLine a v) s) = deviceAddresses s"
    and "timers (handleSerialData (readingLine a v) s) =
           timers s @ (if isSampling s then [(100, RequestTemperature)] else [])"
    and "written (handleSerialData (readingLine a v) s) = written s"
    and "isSampling (handleSerialData (readingLine a v) s) = isSampling s"
    and "connectedDevices (handleSerialData (readingLine a v) s) = connectedDevices s"
    unfolding h using assms(1) r
    by (simp_all add: Let_def setTimeout_def waitTime_def)
qed

lemma requestTemperature_sends:
  assumes "isSampling s" and "currentDeviceIndex s < length (deviceAddresses s)"
  shows "written (requestTemperature s) =
           written s @ [encodeFrame (deviceAddresses s ! currentDeviceIndex s @ '',READTEMP'')]"
    and "currentDeviceIndex (requestTemperature s) = currentDeviceIndex s"
    and "deviceAddresses (requestTemperature s) = deviceAddresses s"
    and "isSampling (requestTemperature s) = isSampling s"
    and "timers (requestTemperature s) = timers s"
    and "errorCounters (requestTemperature s) = errorCounters s"
    and "deviceTemperatures (requestTemperature s) = deviceTemperatures s"
    and "connectedDevices (requestTemperature s) = connectedDevices s"
  using assms
  by (auto simp: requestTemperature_def arrayAt_def Let_def logLine_def writeFrame_def)

lemma requestTemperature_idle:
  "\<not> isSampling s \<or> deviceAddresses s = [] \<Longrightarrow> requestTemperature s = s"
  by (auto simp: requestTemperature_def)

lemma in_set_length_pos: "a \<in> set xs \<Longrightarrow> 0 < length xs"
  by (cases xs) auto

lemma pollRound_fields:
  assumes "isSampling s" and "fst r \<in> set (deviceAddresses s)"
    and "CHR '','' \<notin> set (fst r)" and "CHR '','' \<notin> set (snd r)"
  shows "written (pollRound r s) =
           written s @ [encodeFrame (deviceAddresses s !
             ((currentDeviceIndex s + 1) mod length (deviceAddresses s)) @ '',READTEMP'')]"
    and "currentDeviceIndex (pollRound r s) =
           (currentDeviceIndex s + 1) mod length (deviceAddresses s)"
    and "deviceAddresses (pollRound r s) = deviceAddresses s"
    and "isSampling (pollRound r s)"
    and "deviceTemperatures (pollRound r s) = (deviceTemperatures s)(fst r \<mapsto> snd r)"
    and "errorCounters (pollRound r s) = (errorCounters s)(fst r \<mapsto> 0)"
proof -
  let ?h = "handleSerialData (readingLine (fst r) (snd r)) s"
  note f = reading_fields [OF assms(2,3,4)]
  have pending: "(waitTime, RequestTemperature) \<in> set (timers ?h)"
    using f(5) assms(1) by (simp add: waitTime_def)
  let ?t = "?h\<lparr>timers := remove1 (waitTime, RequestTemperature) (timers ?h)\<rparr>"
  have p: "pollRound r s = requestTemperature ?t"
    using pending by (simp add: pollRound_def)
  have n: "0 < length (deviceAddresses s)" using assms(2) by (rule in_set_length_pos)
  have s: "isSampling ?t" using f(7) assms(1) by simp
  have c: "currentDeviceIndex ?t < length (deviceAddresses ?t)"
    using f(3,4) n by simp
  note q = requestTemperature_sends [OF s c]
  show "written (pollRound r s) =
           written s @ [encodeFrame (deviceAddresses s !
             ((currentDeviceIndex s + 1) mod length (deviceAddresses s)) @ '',READTEMP'')]"
    unfolding p q(1) using f(3,4,6) by simp
  show "currentDeviceIndex (pollRound r s) =
           (currentDeviceIndex s + 1) mod length (deviceAddresses s)"
    unfolding p q(2) using f(3) by simp
  show "deviceAddresses (pollRound r s) = deviceAddresses s"
    unfolding p q(3) using f(4) by simp
  show "isSampling (pollRound r s)"
    unfolding p q(4) using s by simp
  show "deviceTemperatures (pollRound r s) = (deviceTemperatures s)(fst r \<mapsto> snd r)"
    unfolding p q(7) using f(1) by simp
  show "errorCounters (pollRound r s) = (errorCounters s)(fst r \<mapsto> 0)"
    unfolding p q(6) using f(2) by simp
qed

lemma poll_rounds:
  assumes "isSampling s" and "\<forall>r\<in>set rs. knownReading s r"
  shows "currentDeviceIndex (fold pollRound rs s) mod length (deviceAddresses s) =
           (currentDeviceIndex s + length rs) mod length (deviceAddresses s)
     \<and> written (fold pollRound rs s) =
           written s @ map (\<lambda>i. encodeFrame (deviceAddresses s !
             ((currentDeviceIndex s + i) mod length (deviceAddresses s)) @ '',READTEMP''))
             [1 ..< Suc (length rs)]
     \<and> deviceAddresses (fold pollRound rs s) = deviceAddresses s
     \<and> isSampling (fold pollRound rs s)
     \<and> (rs \<noteq> [] \<longrightarrow> currentDeviceIndex (fold pollRound rs s) < length (deviceAddresses s))"
  using assms(2)
proof (induction rs rule: rev_induct)
  case Nil
  show ?case using assms(1) by simp
next
  case (snoc r rs)
  let ?t = "fold pollRound rs s"
  let ?n = "length (deviceAddresses s)"
  have ih: "currentDeviceIndex ?t mod ?n = (currentDeviceIndex s + length rs) mod ?n"
    "written ?t =
           written s @ map (\<lambda>i. encodeFrame (deviceAddresses s !
             ((currentDeviceIndex s + i) mod ?n) @ '',READTEMP''))
             [1 ..< Suc (length rs)]"
    "deviceAddresses ?t = deviceAddresses s"
    "isSampling ?t"
    using snoc by simp_all
  have k: "knownReading s r" using snoc.prems by simp
  then have k': "fst r \<in> set (deviceAddresses ?t)" "CHR '','' \<notin> set (fst r)"
    "CHR '','' \<notin> set (snd r)"
    by (simp_all add: knownReading_def ih(3))
  have n: "0 < ?n" using k by (auto simp: knownReading_def intro: in_set_length_pos)
  note f = pollRound_fields [OF ih(4) k']
  have m: "(currentDeviceIndex ?t + 1) mod ?n = (currentDeviceIndex s + Suc (length rs)) mod ?n"
    using ih(1) by (metis Suc_eq_plus1 add_Suc_right mod_Suc_eq)
  have c: "currentDeviceIndex (fold pollRound (rs @ [r]) s) =
      (currentDeviceIndex s + Suc (length rs)) mod ?n"
    using f(2) ih(3) m by simp
  have w: "written (fold pollRound (rs @ [r]) s) =
      written ?t @ [encodeFrame (deviceAddresses s !
             ((currentDeviceIndex s + Suc (length rs)) mod ?n) @ '',READTEMP'')]"
    using f(1) ih(3) m by simp
  show ?case
    using c w f(3,4) ih(2,3) n by simp
qed

lemma sendConnectedLoop_keeps_counters [simp]:
  "errorCounters (sendConnectedLoop i a s) = errorCounters s"
  "deviceAddresses (sendConnectedLoop i a s) = deviceAddresses s"
  "currentDeviceIndex (sendConnectedLoop i a s) = currentDeviceIndex s"
  "isSampling (sendConnectedLoop i a s) = isSampling s"
  by (simp_all add: sendConnectedLoop_def Let_def setTimeout_def logLine_def writeFrame_def)

lemma registerDevice_counters:
  "errorCounters (registerDevice m s) b \<noteq> errorCounters s b \<Longrightarrow>
     b = m \<and> m \<notin> set (deviceAddresses s)"
  by (auto simp: registerDevice_def sendConnectedMessage_def split: if_splits)

lemma handleMessage_counters:
  assumes "errorCounters (handleMessage m s) b \<noteq> errorCounters s b"
  shows "(CHR '','' \<in> set m \<and> b = hd (js_split CHR '','' m) \<and> b \<in> set (deviceAddresses s))
     \<or> (b = m \<and> m \<notin> set (deviceAddresses s))"
proof (cases "CHR '','' \<in> set m \<and> hd (js_split CHR '','' m) \<in> set (deviceAddresses s)")
  case True
  then obtain a t r where sp: "js_split CHR '','' m = a # t # r" using js_split_hd by blast
  then have a: "a \<in> set (deviceAddresses s)" using True by simp
  have "errorCounters (handleMessage m s) = (errorCounters s)(a \<mapsto> 0)"
    using handleMessage_reading [OF sp _ a] True
    by (simp add: Let_def setTimeout_def)
  then have "b = a" using assms by (auto split: if_splits)
  then show ?thesis using True sp by simp
next
  case False
  then have "handleMessage m s = registerDevice m s"
    using handleMessage_other by blast
  then show ?thesis using assms registerDevice_counters by auto
qed

lemma handleCorruptedData_counters:
  "errorCounters (handleCorruptedData s) b \<noteq> errorCounters s b \<Longrightarrow>
     arrayAt (deviceAddresses s) (currentDeviceIndex s) = Some b"
  by (auto simp: handleCorruptedData_def Let_def setTimeout_def logLine_def
      split: option.splits if_splits)

lemma counters_ignored: "classify data = Ignored \<Longrightarrow> handleSerialData data s = s"
  by (simp add: handleSerialData_def)

lemma counters_corrupted:
  assumes "isCorrupted data"
    and "errorCounters (handleSerialData data s) a \<noteq> errorCounters s a"
  shows "arrayAt (deviceAddresses s) (currentDeviceIndex s) = Some a"
proof -
  obtain l where h: "handleSerialData data s =
      handleCorruptedData (logLine l (logLine (Received data) s))"
    using handleSerialData_corrupted [OF assms(1)] by blast
  show ?thesis
    using assms(2) handleCorruptedData_counters [of "logLine l (logLine (Received data) s)" a]
    unfolding h by simp
qed

lemma counters_valid:
  assumes "classify data = Valid m"
    and "errorCounters (handleSerialData data s) a \<noteq> errorCounters s a"
  shows "(CHR '','' \<in> set m \<and> a = hd (js_split CHR '','' m) \<and> a \<in> set (deviceAddresses s))
     \<or> (a = m \<and> m \<notin> set (deviceAddresses s))"
  using assms(2) handleMessage_counters [of m "logLine (Received data) s" a]
  by (simp add: handleSerialData_valid [OF assms(1)])


lemma registerDevice_new:
  assumes "\<not> truthyProperty (connectedDevices s) m" and "m \<notin> set (deviceAddresses s)"
  shows "deviceAddresses (registerDevice m s) = deviceAddresses s @ [m]"
    and "errorCounters (registerDevice m s) m = Some 0"
    and "connectedDevices (registerDevice m s) m = Some False"
    and "deviceTemperatures (registerDevice m s) m = Some ''N/A''"
    and "written (registerDevice m s) = written s @ [encodeFrame (m @ '',CONNECTED'')]"
    and "timers (registerDevice m s) = timers s @ [(100, ConnectedResume m 0)]"
  using assms
  by (simp_all add: registerDevice_def sendConnectedMessage_def sendConnectedLoop_def
      connectedMessageRetries_def Let_def setTimeout_def logLine_def writeFrame_def)

lemma resume_sends_again:
  assumes "i < 2"
  shows "written (fire (ConnectedResume m i) s) = written s @ [encodeFrame (m @ '',CONNECTED'')]"
    and "timers (fire (ConnectedResume m i) s) = timers s @ [(100, ConnectedResume m (i + 1))]"
    and "connectedDevices (fire (ConnectedResume m i) s) = connectedDevices s"
    and "deviceAddresses (fire (ConnectedResume m i) s) = deviceAddresses s"
  using assms
  by (simp_all add: sendConnectedLoop_def connectedMessageRetries_def Let_def setTimeout_def
      logLine_def writeFrame_def)

lemma resume_confirms:
  "written (fire (ConnectedResume m 2) s) = written s"
  "timers (fire (ConnectedResume m 2) s) = timers s"
  "connectedDevices (fire (ConnectedResume m 2) s) = (connectedDevices s)(m \<mapsto> True)"
  "deviceAddresses (fire (ConnectedResume m 2) s) = deviceAddresses s"
  by (simp_all add: sendConnectedLoop_def connectedMessageRetries_def)

lemma handshake_sends_three:
  assumes "classify data = Valid m" and "CHR '','' \<notin> set m"
    and "\<not> truthyProperty (connectedDevices s) m" and "m \<notin> set (deviceAddresses s)"
  shows "deviceAddresses (handleSerialData data s) = deviceAddresses s @ [m]"
    and "errorCounters (handleSerialData data s) m = Some 0"
    and "connectedDevices (handleSerialData data s) m = Some False"
    and "written (handleSerialData data s) = written s @ [encodeFrame (m @ '',CONNECTED'')]"
    and "timers (handleSerialData data s) = timers s @ [(100, ConnectedResume m 0)]"
    and "connectedDevices
           (fire (ConnectedResume m 1) (fire (ConnectedResume m 0) (handleSerialData data s))) m
         = Some False"
    and "written
           (fire (ConnectedResume m 2)
              (fire (ConnectedResume m 1) (fire (ConnectedResume m 0) (handleSerialData data s))))
         = written s @ [encodeFrame (m @ '',CONNECTED''), encodeFrame (m @ '',CONNECTED''),
                        encodeFrame (m @ '',CONNECTED'')]"
    and "connectedDevices
           (fire (ConnectedResume m 2)
              (fire (ConnectedResume m 1) (fire (ConnectedResume m 0) (handleSerialData data s)))) m
         = Some True"
proof -
  let ?t = "logLine (Received data) s"
  have h: "handleSerialData data s = registerDevice m ?t"
    using assms(1,2) by (simp add: handleSerialData_valid handleMessage_other)
  have a: "\<not> truthyProperty (connectedDevices ?t) m" "m \<notin> set (deviceAddresses ?t)"
    using assms(3,4) by simp_all
  note r = registerDevice_new [OF a]
  show "deviceAddresses (handleSerialData data s) = deviceAddresses s @ [m]"
    and "errorCounters (handleSerialData data s) m = Some 0"
    and "connectedDevices (handleSerialData data s) m = Some False"
    and "written (handleSerialData data s) = written s @ [encodeFrame (m @ '',CONNECTED'')]"
    and "timers (handleSerialData data s) = timers s @ [(100, ConnectedResume m 0)]"
    unfolding h using r by simp_all
  have i: "(0::nat) < 2" "(1::nat) < 2" by simp_all
  show "connectedDevices
           (fire (ConnectedResume m 1) (fire (ConnectedResume m 0) (handleSerialData data s))) m
         = Some False"
    unfolding resume_sends_again(3) [OF i(2)] resume_sends_again(3) [OF i(1)] h using r(3) .
  show "written
           (fire (ConnectedResume m 2)
              (fire (ConnectedResume m 1) (fire (ConnectedResume m 0) (handleSerialData data s))))
         = written s @ [encodeFrame (m @ '',CONNECTED''), encodeFrame (m @ '',CONNECTED''),
                        encodeFrame (m @ '',CONNECTED'')]"
    unfolding resume_confirms(1) resume_sends_again(1) [OF i(2)] resume_sends_again(1) [OF i(1)] h
    using r(5) by simp
  show "connectedDevices
           (fire (ConnectedResume m 2)
              (fire (ConnectedResume m 1) (fire (ConnectedResume m 0) (handleSerialData data s)))) m
         = Some True"
    unfolding resume_confirms(3) by simp
qed

subsection \<open>The discovery check\<close>

lemma discoveryCheck_continue:
  assumes "length (deviceAddresses s) < 4" and "discoveryAttempts s < 1000"
  shows "written (discoveryCheck s) = written s @ [encodeFrame ''DISCOVER'']"
    and "timers (discoveryCheck s) = timers s @ [(100, DiscoveryCheck)]"
    and "isSampling (discoveryCheck s) = isSampling s"
    and "discoveryAttempts (discoveryCheck s) = discoveryAttempts s + 1"
  using assms
  by (simp_all add: discoveryCheck_def startDiscovery_def maxDiscoveryAttempts_def logLine_def
      setTimeout_def writeFrame_def waitTime_def)

lemma discoveryCheck_exhausted:
  assumes "length (deviceAddresses s) < 4" and "1000 \<le> discoveryAttempts s"
  shows "written (discoveryCheck s) = written s"
    and "timers (discoveryCheck s) = timers s"
    and "isSampling (discoveryCheck s) = isSampling s"
    and "discoveryAttempts (discoveryCheck s) = discoveryAttempts s"
  using assms
  by (simp_all add: discoveryCheck_def startDiscovery_def maxDiscoveryAttempts_def logLine_def)

lemma discoveryCheck_complete:
  assumes "4 \<le> length (deviceAddresses s)"
    and "currentDeviceIndex s < length (deviceAddresses s)"
  shows "isSampling (discoveryCheck s)"
    and "written (discoveryCheck s) =
           written s @ [encodeFrame (deviceAddresses s ! currentDeviceIndex s @ '',READTEMP'')]"
    and "timers (discoveryCheck s) = timers s"
    and "discoveryAttempts (discoveryCheck s) = discoveryAttempts s"
proof -
  let ?t = "(logLine DiscoveryComplete s)\<lparr>isSampling := True\<rparr>"
  have d: "discoveryCheck s = requestTemperature ?t"
    using assms(1) by (simp add: discoveryCheck_def)
  have s: "isSampling ?t" by simp
  have c: "currentDeviceIndex ?t < length (deviceAddresses ?t)" using assms(2) by simp
  note q = requestTemperature_sends [OF s c]
  show "isSampling (discoveryCheck s)" unfolding d q(4) by simp
  show "written (discoveryCheck s) =
           written s @ [encodeFrame (deviceAddresses s ! currentDeviceIndex s @ '',READTEMP'')]"
    unfolding d q(1) by simp
  show "timers (discoveryCheck s) = timers s" unfolding d q(5) by simp
  show "discoveryAttempts (discoveryCheck s) = discoveryAttempts s"
    unfolding d by (simp add: requestTemperature_def Let_def logLine_def writeFrame_def)
qed

lemma frames_differ: "encodeFrame ''RESET'' \<noteq> encodeFrame ''DISCOVER''"
  by (simp add: encodeFrame_def)

section \<open>The example sessions, evaluated\<close>

lemmas classify_eval = classify_def lastIndexOf_def parse_eval crc_eval

lemma classify_A: "classify ''A,B915'' = Valid ''A''" by (simp add: classify_eval)

lemma classify_B: "classify ''B,8976'' = Valid ''B''" by (simp add: classify_eval)

lemma classify_C: "classify ''C,9957'' = Valid ''C''" by (simp add: classify_eval)

lemma classify_D: "classify ''D,E9B0'' = Valid ''D''" by (simp add: classify_eval)

lemma classify_A1: "classify ''A,1,83F8'' = Valid ''A,1''" by (simp add: classify_eval)

lemma classify_B2: "classify ''B,2,EACB'' = Valid ''B,2''" by (simp add: classify_eval)

lemma classify_x: "classify ''x'' = FramingError" by (simp add: classify_eval)

lemma classify_constructor: "classify ''constructor,9A7A'' = Valid ''constructor''"
  by (simp add: classify_eval)

lemma classify_D1: "classify ''D1,FA75'' = Valid ''D1''" by (simp add: classify_eval)

lemma classify_empty: "classify [] = Ignored" by (simp add: classify_def)

lemmas classify_lines = classify_A classify_B classify_C classify_D classify_A1 classify_B2
  classify_x classify_constructor classify_D1 classify_empty

lemmas engine_eval = run_def connectSerial_def resetDiscovery_def initialState_def logLine_def
  setTimeout_def writeFrame_def processSerialBuffer_def js_trim_def isWhiteSpace_def
  handleSerialData_def handleMessage_def registerDevice_def truthyProperty_def
  objectPrototypeKeys_def sendConnectedMessage_def sendConnectedLoop_def
  connectedMessageRetries_def handleCorruptedData_def errorCount_def arrayAt_def maxErrorCount_def
  waitTime_def requestTemperature_def startDiscovery_def discoveryCheck_def
  maxDiscoveryAttempts_def Let_def classify_lines


lemma announcedA_fields:
  "deviceAddresses announcedA = [''A'']"
  "currentDeviceIndex announcedA = 0"
  "isSampling announcedA = False"
  "errorCounters announcedA ''A'' = Some 0"
  "written announcedA = [encodeFrame ''RESET'', encodeFrame ''A,CONNECTED'']"
  by (simp_all add: announcedA_def connected_def engine_eval)

lemma cursorAtB_fields:
  "deviceAddresses cursorAtB = [''A'', ''B'']"
  "currentDeviceIndex cursorAtB = 1"
  "isSampling cursorAtB = False"
  "errorCounters cursorAtB ''A'' = Some 0"
  "errorCounters cursorAtB ''B'' = Some 0"
  "deviceTemperatures cursorAtB ''A'' = Some ''1''"
  by (simp_all add: cursorAtB_def connected_def engine_eval)

lemma faultedB_fields:
  "deviceAddresses faultedB = [''A'', ''B'']"
  "currentDeviceIndex faultedB = 0"
  "errorCounters faultedB ''A'' = Some 0"
  "errorCounters faultedB ''B'' = Some 1"
  "isSampling faultedB = False"
  by (simp_all add: faultedB_def cursorAtB_def connected_def engine_eval)

lemma sampling_fields:
  "deviceAddresses sampling = [''A'', ''B'', ''C'', ''D'']"
  "currentDeviceIndex sampling = 0"
  "isSampling sampling = True"
  "connectedDevices sampling ''A'' = Some False"
  "written sampling = [encodeFrame ''RESET'', encodeFrame ''DISCOVER'',
     encodeFrame ''A,CONNECTED'', encodeFrame ''B,CONNECTED'', encodeFrame ''C,CONNECTED'',
     encodeFrame ''D,CONNECTED'', encodeFrame ''A,READTEMP'']"
  by (simp_all add: sampling_def fourAnnounced_def connected_def engine_eval)

lemma isCorrupted_x: "isCorrupted ''x''"
  by (simp add: isCorrupted_def classify_x)

lemma discoveryStarted_fields:
  "discoveryAttempts discoveryStarted = 2"
  "timers discoveryStarted = [(100, DiscoveryCheck), (100, DiscoveryCheck)]"
  "deviceAddresses discoveryStarted = []"
  "isSampling discoveryStarted = False"
  by (simp_all add: discoveryStarted_def connected_def engine_eval)

lemma check_step:
  assumes "deviceAddresses s = []" and "\<not> isSampling s"
    and "(100, DiscoveryCheck) \<in> set (timers s)"
  shows "deviceAddresses (step (TimerFires 100 DiscoveryCheck) s) = []"
    and "\<not> isSampling (step (TimerFires 100 DiscoveryCheck) s)"
    and "discoveryAttempts s < 1000 \<Longrightarrow>
          discoveryAttempts (step (TimerFires 100 DiscoveryCheck) s) = discoveryAttempts s + 1
          \<and> timers (step (TimerFires 100 DiscoveryCheck) s) =
              remove1 (100, DiscoveryCheck) (timers s) @ [(100, DiscoveryCheck)]"
    and "1000 \<le> discoveryAttempts s \<Longrightarrow>
          discoveryAttempts (step (TimerFires 100 DiscoveryCheck) s) = discoveryAttempts s
          \<and> timers (step (TimerFires 100 DiscoveryCheck) s) =
              remove1 (100, DiscoveryCheck) (timers s)"
  using assms
  by (simp_all add: discoveryCheck_def startDiscovery_def maxDiscoveryAttempts_def logLine_def
      setTimeout_def writeFrame_def waitTime_def)

lemma checks_within_budget:
  assumes "k \<le> 998"
  shows "discoveryAttempts (((step (TimerFires 100 DiscoveryCheck)) ^^ k) discoveryStarted) = 2 + k
    \<and> timers (((step (TimerFires 100 DiscoveryCheck)) ^^ k) discoveryStarted) =
        [(100, DiscoveryCheck), (100, DiscoveryCheck)]
    \<and> deviceAddresses (((step (TimerFires 100 DiscoveryCheck)) ^^ k) discoveryStarted) = []
    \<and> \<not> isSampling (((step (TimerFires 100 DiscoveryCheck)) ^^ k) discoveryStarted)"
  using assms
proof (induction k)
  case 0
  show ?case by (simp add: discoveryStarted_fields)
next
  case (Suc k)
  let ?t = "((step (TimerFires 100 DiscoveryCheck)) ^^ k) discoveryStarted"
  have ih: "discoveryAttempts ?t = 2 + k"
    "timers ?t = [(100, DiscoveryCheck), (100, DiscoveryCheck)]"
    "deviceAddresses ?t = []" "\<not> isSampling ?t"
    using Suc by (simp_all del: step.simps)
  have p: "(100, DiscoveryCheck) \<in> set (timers ?t)" using ih(2) by simp
  have b: "discoveryAttempts ?t < 1000" using ih(1) Suc.prems by simp
  note c = check_step [OF ih(3,4) p]
  show ?case
    using c(1,2) c(3) [OF b] ih(1,2) by (simp del: step.simps)
qed

lemma exhausted_fields:
  "discoveryAttempts (run exhaustingTrace (connectSerial initialState)) = 1000"
  "timers (run exhaustingTrace (connectSerial initialState)) = []"
  "deviceAddresses (run exhaustingTrace (connectSerial initialState)) = []"
  "\<not> isSampling (run exhaustingTrace (connectSerial initialState))"
proof -
  let ?e = "step (TimerFires 100 DiscoveryCheck)"
  let ?a = "(?e ^^ 998) discoveryStarted"
  have r: "run exhaustingTrace (connectSerial initialState) = ?e (?e ?a)"
  proof -
    have "run exhaustingTrace (connectSerial initialState) = (?e ^^ 1000) discoveryStarted"
      by (simp add: exhaustingTrace_def run_def discoveryStarted_def connected_def fold_replicate
          del: step.simps)
    also have "\<dots> = (?e ^^ (Suc (Suc 998))) discoveryStarted" by (simp del: step.simps)
    also have "\<dots> = ?e (?e ?a)" by (simp only: funpow.simps o_apply)
    finally show ?thesis .
  qed
  have a: "discoveryAttempts ?a = 1000"
    "timers ?a = [(100, DiscoveryCheck), (100, DiscoveryCheck)]"
    "deviceAddresses ?a = []" "\<not> isSampling ?a"
    using checks_within_budget [of 998] by (simp_all del: step.simps)
  have pa: "(100, DiscoveryCheck) \<in> set (timers ?a)" using a(2) by simp
  note ca = check_step [OF a(3,4) pa]
  have b: "discoveryAttempts (?e ?a) = 1000" "timers (?e ?a) = [(100, DiscoveryCheck)]"
    using ca(4) a(1,2) by (simp_all del: step.simps)
  have pb: "(100, DiscoveryCheck) \<in> set (timers (?e ?a))" using b(2) by (simp del: step.simps)
  note cb = check_step [OF ca(1,2) pb]
  show "discoveryAttempts (run exhaustingTrace (connectSerial initialState)) = 1000"
    "timers (run exhaustingTrace (connectSerial initialState)) = []"
    "deviceAddresses (run exhaustingTrace (connectSerial initialState)) = []"
    "\<not> isSampling (run exhaustingTrace (connectSerial initialState))"
    unfolding r using cb(1,2) cb(4) b by (simp_all del: step.simps)
qed

lemma fourStarted_fields:
  "ClickReset \<notin> set fourStartedTrace"
  "run fourStartedTrace (connectSerial initialState) = fourStarted"
  "deviceAddresses fourStarted = [''A'', ''B'', ''C'', ''D'']"
  "currentDeviceIndex fourStarted = 0"
  "isSampling fourStarted = False"
  "startPending fourStarted = False"
  "discoveryAttempts fourStarted = 2"
  by (simp_all add: fourStarted_def fourStartedTrace_def fourAnnounced_def connected_def
      engine_eval startPending_def)

lemma classify_A215: "classify ''A,21.5,D234'' = Valid ''A,21.5''"
  by (simp add: classify_eval)

lemma classify_Z9: "classify ''Z,9,B162'' = Valid ''Z,9''" by (simp add: classify_eval)

lemma classify_Z95: "classify ''Z,9,5,44A5'' = Valid ''Z,9,5''" by (simp add: classify_eval)

lemma confirmed_fields:
  "isSampling (run confirmedTrace (connectSerial initialState))"
  "deviceAddresses (run confirmedTrace (connectSerial initialState)) = [''A'', ''B'', ''C'', ''D'']"
  "timers (run confirmedTrace (connectSerial initialState)) = [(2000, StartDiscovery)]"
  "currentDeviceIndex (run confirmedTrace (connectSerial initialState)) = 0"
  "discoveryAttempts (run confirmedTrace (connectSerial initialState)) = 1"
  "written (run confirmedTrace (connectSerial initialState)) =
     [encodeFrame ''RESET'', encodeFrame ''DISCOVER'',
      encodeFrame ''A,CONNECTED'', encodeFrame ''B,CONNECTED'', encodeFrame ''C,CONNECTED'',
      encodeFrame ''D,CONNECTED'', encodeFrame ''A,READTEMP'',
      encodeFrame ''A,CONNECTED'', encodeFrame ''B,CONNECTED'', encodeFrame ''C,CONNECTED'',
      encodeFrame ''D,CONNECTED'',
      encodeFrame ''A,CONNECTED'', encodeFrame ''B,CONNECTED'', encodeFrame ''C,CONNECTED'',
      encodeFrame ''D,CONNECTED'']"
  by (simp_all add: confirmedTrace_def engine_eval)

lemma doublePoll_fields:
  "deviceAddresses (run doublePollTrace (connectSerial initialState)) = [''A'', ''B'', ''C'', ''D'']"
  "currentDeviceIndex (run doublePollTrace (connectSerial initialState)) = 1"
  "deviceTemperatures (run doublePollTrace (connectSerial initialState)) ''A'' = Some ''21.5''"
  "InvalidFormat \<notin> set (outputLog (run doublePollTrace (connectSerial initialState)))"
  "CrcFailed \<notin> set (outputLog (run doublePollTrace (connectSerial initialState)))"
  "written (run doublePollTrace (connectSerial initialState)) =
     written (run confirmedTrace (connectSerial initialState))
       @ [encodeFrame ''DISCOVER'', encodeFrame ''B,READTEMP'', encodeFrame ''B,READTEMP'']"
  by (simp_all add: doublePollTrace_def confirmedTrace_def classify_A215 engine_eval)

lemma polls_doublePoll:
  "pollsWritten (run doublePollTrace (connectSerial initialState)) =
     [encodeFrame ''A,READTEMP'', encodeFrame ''B,READTEMP'', encodeFrame ''B,READTEMP'']"
  by (simp add: pollsWritten_def doublePoll_fields confirmed_fields encodeFrame_def)

lemma commaSampling_fields:
  "isSampling commaSampling"
  "deviceAddresses commaSampling = [''A'', ''B'', ''C'', ''Z,9'']"
  "deviceTemperatures commaSampling ''Z,9'' = Some ''N/A''"
  "currentDeviceIndex commaSampling = 0"
  by (simp_all add: commaSampling_def connected_def classify_Z9 engine_eval)

lemma comma_reading: "readingLine ''Z,9'' ''5'' = ''Z,9,5,44A5''"
  by (simp add: readingLine_def crcText_def crc_eval hex_eval)

lemma comma_reading_fields:
  "deviceTemperatures (handleSerialData ''Z,9,5,44A5'' commaSampling) ''Z,9'' = Some ''N/A''"
  "currentDeviceIndex (handleSerialData ''Z,9,5,44A5'' commaSampling) = 0"
  "deviceAddresses (handleSerialData ''Z,9,5,44A5'' commaSampling) =
     [''A'', ''B'', ''C'', ''Z,9'', ''Z,9,5'']"
  by (simp_all add: commaSampling_def connected_def classify_Z9 classify_Z95 engine_eval)

section \<open>Discovery\<close>

text \<open>
  Claim C3, as stated, fails. In the session \<open>confirmedTrace\<close>, without a reset, four
  devices have answered the first DISCOVER frame, the check of the discovery loop has found
  4 registered devices, stopped the loop, set the sampling flag and polled \<open>A\<close>, and the
  four handshakes are complete. \<open>connectSerial\<close> armed a timer for \<open>startDiscovery\<close> of its
  own (line 48, 2000 ms) besides the one of \<open>resetDiscovery\<close> (line 228, 1000 ms), and it is
  still pending. When it fires, \<open>startDiscovery\<close> writes a second DISCOVER frame: lines
  187--196 test the attempt counter only, not the registry. So a DISCOVER frame is issued
  with 4 devices registered and sampling active.
\<close>

theorem discover_written_with_four_registered:
  "ClickReset \<notin> set confirmedTrace
   \<and> isSampling (run confirmedTrace (connectSerial initialState))
   \<and> deviceAddresses (run confirmedTrace (connectSerial initialState)) = [''A'', ''B'', ''C'', ''D'']
   \<and> timers (run confirmedTrace (connectSerial initialState)) = [(2000, StartDiscovery)]
   \<and> discoverCount (run confirmedTrace (connectSerial initialState)) = 1
   \<and> written (step (TimerFires 2000 StartDiscovery) (run confirmedTrace (connectSerial initialState)))
       = written (run confirmedTrace (connectSerial initialState)) @ [encodeFrame ''DISCOVER'']
   \<and> discoverCount
        (step (TimerFires 2000 StartDiscovery) (run confirmedTrace (connectSerial initialState))) = 2"
proof -
  have n: "ClickReset \<notin> set confirmedTrace" by (simp add: confirmedTrace_def)
  show ?thesis
    using n
    by (simp add: confirmed_fields discoverCount_def encodeFrame_def startDiscovery_def
        maxDiscoveryAttempts_def logLine_def setTimeout_def writeFrame_def)
qed

text \<open>
  Claim C3, amended. In every session without a reset, the number of DISCOVER frames
  written equals the attempt counter and never exceeds 1000; sampling is only ever active
  with at least 4 registered devices; and once no discovery timer is pending while
  sampling has not started, exactly 1000 DISCOVER frames have been written. At each
  re-evaluation of the discovery loop, 100 ms after a DISCOVER frame: with fewer than 4
  devices and attempts left it writes one more DISCOVER frame and re-arms its 100 ms
  timer; with fewer than 4 devices and 1000 attempts made it halts, writing nothing; with
  4 or more devices it stops discovering, sets the sampling flag and writes the first poll
  request, to the device at the cursor. And from the moment 4 devices are registered and
  no timer that starts a discovery loop is pending any more, no DISCOVER frame is written,
  whatever happens next.
\<close>

theorem discovery_stops_at_four_or_after_1000:
  assumes "ClickReset \<notin> set evs" and "s = run evs (connectSerial initialState)"
  shows "discoverCount s = discoveryAttempts s \<and> discoveryAttempts s \<le> 1000
    \<and> (isSampling s \<longrightarrow> 4 \<le> length (deviceAddresses s))
    \<and> (\<not> isSampling s \<and> \<not> discoveryPending s \<longrightarrow> discoverCount s = 1000)
    \<and> (length (deviceAddresses s) < 4 \<and> discoveryAttempts s < 1000 \<longrightarrow>
          written (discoveryCheck s) = written s @ [encodeFrame ''DISCOVER'']
          \<and> timers (discoveryCheck s) = timers s @ [(100, DiscoveryCheck)]
          \<and> \<not> isSampling (discoveryCheck s))
    \<and> (length (deviceAddresses s) < 4 \<and> discoveryAttempts s = 1000 \<longrightarrow>
          written (discoveryCheck s) = written s \<and> timers (discoveryCheck s) = timers s
          \<and> \<not> isSampling (discoveryCheck s))
    \<and> (4 \<le> length (deviceAddresses s) \<longrightarrow>
          isSampling (discoveryCheck s)
          \<and> written (discoveryCheck s) =
              written s @ [encodeFrame (deviceAddresses s ! currentDeviceIndex s @ '',READTEMP'')]
          \<and> timers (discoveryCheck s) = timers s)
    \<and> (4 \<le> length (deviceAddresses s) \<and> \<not> startPending s \<and> ClickReset \<notin> set evs' \<longrightarrow>
          discoverCount (run evs' s) = discoverCount s)"
proof -
  have inv: "engineInv s"
    unfolding assms(2) using engineInv_connect assms(1) by (rule engineInv_run)
  then have i: "discoverCount s = discoveryAttempts s" "discoveryAttempts s \<le> 1000"
    "isSampling s \<longrightarrow> 4 \<le> length (deviceAddresses s)"
    "\<not> isSampling s \<and> \<not> discoveryPending s \<longrightarrow> discoveryAttempts s = 1000"
    "cursorOk s"
    by (simp_all add: engineInv_def)
  have few: "\<not> isSampling s" if "length (deviceAddresses s) < 4"
    using i(3) that by auto
  have c: "currentDeviceIndex s < length (deviceAddresses s)" if "4 \<le> length (deviceAddresses s)"
    using i(5) that by (auto simp: cursorOk_def)
  have over: "discoverCount (run evs' s) = discoverCount s"
    if "4 \<le> length (deviceAddresses s)" "\<not> startPending s" "ClickReset \<notin> set evs'"
    using discoveryOver_run [of s evs'] that by (simp add: discoveryOver_def)
  show ?thesis
    using i(1,2,3,4) few c over discoveryCheck_continue [of s] discoveryCheck_exhausted [of s]
      discoveryCheck_complete [of s]
    by auto
qed

text \<open>
  Three sessions: one in which no device ever answers and both loop timers and 1000 checks
  fire, which ends halted after exactly 1000 DISCOVER frames; one in which four devices
  have announced themselves when the check runs, which starts sampling; and the
  continuation of the latter by the two pending checks, which write no DISCOVER frame.
\<close>

theorem discovery_stops_at_four_or_after_1000_witness:
  "ClickReset \<notin> set exhaustingTrace
   \<and> \<not> isSampling (run exhaustingTrace (connectSerial initialState))
   \<and> \<not> discoveryPending (run exhaustingTrace (connectSerial initialState))
   \<and> length (deviceAddresses (run exhaustingTrace (connectSerial initialState))) < 4
   \<and> discoveryAttempts (run exhaustingTrace (connectSerial initialState)) = 1000
   \<and> discoverCount (run exhaustingTrace (connectSerial initialState)) = 1000
   \<and> written (discoveryCheck (run exhaustingTrace (connectSerial initialState))) =
       written (run exhaustingTrace (connectSerial initialState))
   \<and> ClickReset \<notin> set fourStartedTrace
   \<and> 4 \<le> length (deviceAddresses fourStarted) \<and> \<not> startPending fourStarted
   \<and> isSampling (discoveryCheck fourStarted)
   \<and> written (discoveryCheck fourStarted) = written fourStarted @ [encodeFrame ''A,READTEMP'']
   \<and> ClickReset \<notin> set [TimerFires 100 DiscoveryCheck, TimerFires 100 DiscoveryCheck]
   \<and> discoverCount (run [TimerFires 100 DiscoveryCheck, TimerFires 100 DiscoveryCheck] fourStarted)
       = 2"
proof -
  have n: "ClickReset \<notin> set exhaustingTrace" by (simp add: exhaustingTrace_def)
  have a: "\<not> isSampling (run exhaustingTrace (connectSerial initialState))
   \<and> \<not> discoveryPending (run exhaustingTrace (connectSerial initialState))
   \<and> length (deviceAddresses (run exhaustingTrace (connectSerial initialState))) < 4
   \<and> discoveryAttempts (run exhaustingTrace (connectSerial initialState)) = 1000
   \<and> discoverCount (run exhaustingTrace (connectSerial initialState)) = 1000
   \<and> written (discoveryCheck (run exhaustingTrace (connectSerial initialState))) =
       written (run exhaustingTrace (connectSerial initialState))"
    using discovery_stops_at_four_or_after_1000 [OF n refl] exhausted_fields
    by (simp add: discoveryPending_def)
  have b: "isSampling (discoveryCheck fourStarted)
   \<and> written (discoveryCheck fourStarted) = written fourStarted @ [encodeFrame ''A,READTEMP'']
   \<and> discoverCount (run [TimerFires 100 DiscoveryCheck, TimerFires 100 DiscoveryCheck] fourStarted)
       = 2"
    using discovery_stops_at_four_or_after_1000
      [OF fourStarted_fields(1) fourStarted_fields(2) [symmetric],
        of "[TimerFires 100 DiscoveryCheck, TimerFires 100 DiscoveryCheck]"]
      fourStarted_fields(3-7)
    by simp
  show ?thesis using n a b fourStarted_fields(1,3,6) by simp
qed

section \<open>The confirmation handshake\<close>

text \<open>
  Claim C4 fails on the code. The engine has just connected and its registry is empty; the
  line \<open>constructor,9A7A\<close> is a valid frame whose message is the bare address token
  \<open>constructor\<close>, which is in none of the registry's maps. The test
  \<open>!connectedDevices[message]\<close> of line 140 reads the property \<open>constructor\<close> that the
  empty object inherits, which is truthy, so the device is not registered and no
  \<open>CONNECTED\<close> frame is written.
\<close>

theorem constructor_not_registered:
  "classify ''constructor,9A7A'' = Valid ''constructor''
   \<and> deviceAddresses connected = []
   \<and> connectedDevices connected ''constructor'' = None
   \<and> deviceAddresses (step (Receive (''constructor,9A7A'' @ [CHR 0x0A])) connected) = []
   \<and> written (step (Receive (''constructor,9A7A'' @ [CHR 0x0A])) connected) = written connected
   \<and> timers (step (Receive (''constructor,9A7A'' @ [CHR 0x0A])) connected) = timers connected"
  by (simp add: connected_def engine_eval)

text \<open>
  The same test also fails for an ordinary address after a reset that arrives during the
  handshake: the pending confirmation still marks \<open>D1\<close> connected in the cleared registry,
  and the next announcement of \<open>D1\<close> is ignored.
\<close>

lemma stale_confirmation_blocks_registration:
  "deviceAddresses staleConfirmation = []
   \<and> connectedDevices staleConfirmation ''D1'' = Some True
   \<and> deviceAddresses (step (Receive (''D1,FA75'' @ [CHR 0x0A])) staleConfirmation) = []
   \<and> written (step (Receive (''D1,FA75'' @ [CHR 0x0A])) staleConfirmation) =
       written staleConfirmation"
  by (simp add: staleConfirmation_def connected_def engine_eval classify_D1)

section \<open>Polling\<close>

text \<open>
  Claim C5, as stated, fails, in two ways. In the session \<open>doublePollTrace\<close>, without a
  reset and without a corrupted line, sampling is active and \<open>A\<close> has been polled; the
  reading of \<open>A\<close> is recorded and moves the cursor to \<open>B\<close>; then the check of the second
  discovery loop polls \<open>B\<close> (lines 203--206 call \<open>requestTemperature\<close>) and the request
  timer armed by the reading polls \<open>B\<close> again: the polls written are \<open>A\<close>, \<open>B\<close>, \<open>B\<close>. And
  in the session \<open>commaSampling\<close> sampling is active and \<open>Z,9\<close> is a registered address; its
  reading \<open>Z,9,5\<close> is split at the first comma (line 121), \<open>Z\<close> is not a registered address,
  and the message is registered as one more device: the temperature of \<open>Z,9\<close> is not
  recorded and the cursor does not move.
\<close>

theorem reading_round_robin_fails:
  "ClickReset \<notin> set doublePollTrace
   \<and> deviceAddresses (run doublePollTrace (connectSerial initialState)) = [''A'', ''B'', ''C'', ''D'']
   \<and> InvalidFormat \<notin> set (outputLog (run doublePollTrace (connectSerial initialState)))
   \<and> CrcFailed \<notin> set (outputLog (run doublePollTrace (connectSerial initialState)))
   \<and> deviceTemperatures (run doublePollTrace (connectSerial initialState)) ''A'' = Some ''21.5''
   \<and> pollsWritten (run doublePollTrace (connectSerial initialState)) =
        [encodeFrame ''A,READTEMP'', encodeFrame ''B,READTEMP'', encodeFrame ''B,READTEMP'']
   \<and> isSampling commaSampling
   \<and> deviceAddresses commaSampling = [''A'', ''B'', ''C'', ''Z,9'']
   \<and> readingLine ''Z,9'' ''5'' = ''Z,9,5,44A5''
   \<and> classify ''Z,9,5,44A5'' = Valid ''Z,9,5''
   \<and> deviceTemperatures commaSampling ''Z,9'' = Some ''N/A''
   \<and> deviceTemperatures (handleSerialData (readingLine ''Z,9'' ''5'') commaSampling) ''Z,9''
        = Some ''N/A''
   \<and> currentDeviceIndex (handleSerialData (readingLine ''Z,9'' ''5'') commaSampling) =
        currentDeviceIndex commaSampling
   \<and> deviceAddresses (handleSerialData (readingLine ''Z,9'' ''5'') commaSampling) =
        [''A'', ''B'', ''C'', ''Z,9'', ''Z,9,5'']"
proof -
  have n: "ClickReset \<notin> set doublePollTrace"
    by (simp add: doublePollTrace_def confirmedTrace_def)
  show ?thesis
    using n
    by (simp add: doublePoll_fields(1-5) polls_doublePoll commaSampling_fields comma_reading
        comma_reading_fields classify_Z95)
qed

text \<open>
  Claim C5, amended. While sampling is active, take readings \<open>address,value\<close> of registered
  addresses in which neither the address nor the value contains a comma, and polling
  rounds each made of one reading followed by the firing of the request timer that the
  reading armed, with no other event in between. After any number of such rounds, a
  further reading records the value as the temperature of its device, resets the error
  counter of that device to 0, advances the cursor to \<open>(cursor + 1) mod size\<close> and arms the
  100 ms request timer; the registry is unchanged, and the poll requests written over the
  rounds go to the addresses at \<open>cursor + 1\<close>, \<open>cursor + 2\<close>, ... modulo the size of the
  registry, in this cyclic order.
\<close>

theorem readings_advance_round_robin:
  assumes "isSampling s" and "\<forall>r\<in>set (rs @ [(a, v)]). knownReading s r"
  shows "deviceTemperatures (handleSerialData (readingLine a v) (fold pollRound rs s)) a = Some v
    \<and> errorCounters (handleSerialData (readingLine a v) (fold pollRound rs s)) a = Some 0
    \<and> currentDeviceIndex (handleSerialData (readingLine a v) (fold pollRound rs s)) =
         (currentDeviceIndex (fold pollRound rs s) + 1) mod length (deviceAddresses s)
    \<and> timers (handleSerialData (readingLine a v) (fold pollRound rs s)) =
         timers (fold pollRound rs s) @ [(100, RequestTemperature)]
    \<and> currentDeviceIndex (fold pollRound (rs @ [(a, v)]) s) =
         (currentDeviceIndex s + length rs + 1) mod length (deviceAddresses s)
    \<and> written (fold pollRound (rs @ [(a, v)]) s) =
         written s @ map (\<lambda>i. encodeFrame (deviceAddresses s !
             ((currentDeviceIndex s + i) mod length (deviceAddresses s)) @ '',READTEMP''))
             [1 ..< length rs + 2]
    \<and> deviceAddresses (fold pollRound (rs @ [(a, v)]) s) = deviceAddresses s"
proof -
  let ?t = "fold pollRound rs s"
  have rs: "\<forall>r\<in>set rs. knownReading s r" and av: "knownReading s (a, v)"
    using assms(2) by simp_all
  note p = poll_rounds [OF assms(1) rs]
  have k: "a \<in> set (deviceAddresses ?t)" "CHR '','' \<notin> set a" "CHR '','' \<notin> set v"
    using av p by (simp_all add: knownReading_def)
  note f = reading_fields [OF k]
  note q = poll_rounds [OF assms(1) assms(2)]
  have "currentDeviceIndex (fold pollRound (rs @ [(a, v)]) s) < length (deviceAddresses s)"
    using q by simp
  then have c: "currentDeviceIndex (fold pollRound (rs @ [(a, v)]) s) =
      (currentDeviceIndex s + length rs + 1) mod length (deviceAddresses s)"
    using q by (metis Suc_eq_plus1 add_Suc_right length_append_singleton mod_less)
  have w: "[1 ..< Suc (length (rs @ [(a, v)]))] = [1 ..< length rs + 2]" by simp
  show ?thesis
    using f(1,2,3,5) p c q w by (simp del: fold_append upt_Suc)
qed

theorem readings_advance_round_robin_witness:
  "isSampling sampling
   \<and> knownReading sampling (''A'', ''21.5'') \<and> knownReading sampling (''B'', ''22.0'')
   \<and> knownReading sampling (''C'', ''19.5'')
   \<and> deviceTemperatures (handleSerialData (readingLine ''C'' ''19.5'')
        (fold pollRound [(''A'', ''21.5''), (''B'', ''22.0'')] sampling)) ''C'' = Some ''19.5''
   \<and> currentDeviceIndex
        (fold pollRound [(''A'', ''21.5''), (''B'', ''22.0''), (''C'', ''19.5'')] sampling) = 3
   \<and> written (fold pollRound [(''A'', ''21.5''), (''B'', ''22.0''), (''C'', ''19.5'')] sampling) =
        written sampling
          @ [encodeFrame ''B,READTEMP'', encodeFrame ''C,READTEMP'', encodeFrame ''D,READTEMP'']"
  using readings_advance_round_robin
    [of sampling "[(''A'', ''21.5''), (''B'', ''22.0'')]" "''C''" "''19.5''"]
  by (simp add: sampling_fields knownReading_def upt_rec)



section \<open>Faults\<close>



text \<open>
  Claim C7, as stated, fails. In the session \<open>faultedB\<close> the devices \<open>A\<close> and \<open>B\<close> are
  registered, the cursor is at \<open>A\<close> and \<open>B\<close> has error count 1; a reading from \<open>B\<close> then
  resets the counter of \<open>B\<close>, which is not the device at the cursor.
\<close>

theorem errorCount_changes_at_cursor_fails:
  "arrayAt (deviceAddresses faultedB) (currentDeviceIndex faultedB) = Some ''A''
   \<and> classify ''B,2,EACB'' = Valid ''B,2''
   \<and> errorCounters faultedB ''B'' = Some 1
   \<and> errorCounters (handleSerialData ''B,2,EACB'' faultedB) ''B'' = Some 0"
  by (simp add: faultedB_fields arrayAt_def classify_B2 handleSerialData_def handleMessage_def
      logLine_def setTimeout_def Let_def)

text \<open>
  Claim C7, amended. Handling a line changes the error counter of a device only in one of
  three ways: the line is corrupted and the device is the one at the cursor (the counter
  is incremented); the line is a valid reading whose address field names the device, which
  is registered, at the cursor or not (the counter is reset to 0); or the line announces
  the device, which was not registered (the counter is initialised to 0).
\<close>

theorem errorCount_changes_by_fault_or_reading:
  assumes "errorCounters (handleSerialData data s) a \<noteq> errorCounters s a"
  shows "(isCorrupted data \<and> arrayAt (deviceAddresses s) (currentDeviceIndex s) = Some a)
     \<or> (\<exists>message. classify data = Valid message \<and> CHR '','' \<in> set message
           \<and> a = hd (js_split CHR '','' message) \<and> a \<in> set (deviceAddresses s))
     \<or> (classify data = Valid a \<and> a \<notin> set (deviceAddresses s))"
proof (cases "classify data")
  case Ignored
  then have "handleSerialData data s = s" by (rule counters_ignored)
  with assms show ?thesis by simp
next
  case FramingError
  then have c: "isCorrupted data" by (simp add: isCorrupted_def)
  then show ?thesis using counters_corrupted [OF c assms] by simp
next
  case IntegrityError
  then have c: "isCorrupted data" by (simp add: isCorrupted_def)
  then show ?thesis using counters_corrupted [OF c assms] by simp
next
  case (Valid m)
  then show ?thesis using counters_valid [OF Valid assms] by auto
qed

theorem errorCount_changes_by_fault_or_reading_witness:
  "errorCounters (handleSerialData ''x'' cursorAtB) ''B'' \<noteq> errorCounters cursorAtB ''B''
   \<and> isCorrupted ''x''
   \<and> arrayAt (deviceAddresses cursorAtB) (currentDeviceIndex cursorAtB) = Some ''B''
   \<and> classify ''x'' = FramingError"
proof -
  have p: "errorCounters (handleSerialData ''x'' cursorAtB) ''B'' \<noteq> errorCounters cursorAtB ''B''"
    by (simp add: cursorAtB_fields handleSerialData_def classify_x handleCorruptedData_def
        errorCount_def arrayAt_def logLine_def setTimeout_def Let_def)
  show ?thesis
    using p errorCount_changes_by_fault_or_reading [OF p]
    by (simp add: classify_x cursorAtB_fields arrayAt_def isCorrupted_def)
qed

text \<open>
  Claim C8, as stated, fails. In the session \<open>announcedA\<close> discovery is in progress
  (sampling is not active) and one device is registered; a line without a comma then
  increments the error counter of that device.
\<close>

theorem corrupted_frame_during_discovery_counts:
  "\<not> isSampling announcedA \<and> isCorrupted ''x''
   \<and> errorCounters announcedA ''A'' = Some 0
   \<and> errorCounters (handleSerialData ''x'' announcedA) ''A'' = Some 1"
  by (simp add: announcedA_fields isCorrupted_x handleSerialData_def classify_x
      handleCorruptedData_def errorCount_def arrayAt_def logLine_def setTimeout_def Let_def)

text \<open>
  Claim C8, amended. A corrupted frame that arrives while sampling is not active writes
  nothing, and the poll request it may schedule does nothing if it runs before sampling
  starts. It is logged only (no error counter changes, the cursor does not move and no
  timer is armed) when no device, or the device with the empty address, is at the cursor,
  in particular when the registry is empty. With a device at the cursor the fault is
  counted against it as during sampling and the 100 ms request timer is armed.
\<close>

theorem corrupted_frame_outside_sampling:
  assumes "isCorrupted data" and "\<not> isSampling s"
  shows "written (handleSerialData data s) = written s
    \<and> requestTemperature (handleSerialData data s) = handleSerialData data s
    \<and> (arrayAt (deviceAddresses s) (currentDeviceIndex s) = None
        \<or> arrayAt (deviceAddresses s) (currentDeviceIndex s) = Some [] \<longrightarrow>
          errorCounters (handleSerialData data s) = errorCounters s
          \<and> currentDeviceIndex (handleSerialData data s) = currentDeviceIndex s
          \<and> timers (handleSerialData data s) = timers s)
    \<and> (\<forall>a. arrayAt (deviceAddresses s) (currentDeviceIndex s) = Some a \<and> a \<noteq> [] \<longrightarrow>
          errorCounters (handleSerialData data s) = (errorCounters s)(a \<mapsto> errorCount s a + 1)
          \<and> timers (handleSerialData data s) = timers s @ [(100, RequestTemperature)])"
proof -
  note w = corrupted_writes_nothing [OF assms(1), of s]
  have idle: "requestTemperature (handleSerialData data s) = handleSerialData data s"
    by (rule requestTemperature_idle) (use w assms(2) in simp)
  have un: "errorCounters (handleSerialData data s) = errorCounters s
          \<and> currentDeviceIndex (handleSerialData data s) = currentDeviceIndex s
          \<and> timers (handleSerialData data s) = timers s"
    if u: "arrayAt (deviceAddresses s) (currentDeviceIndex s) = None
        \<or> arrayAt (deviceAddresses s) (currentDeviceIndex s) = Some []"
  proof -
    obtain l where "handleSerialData data s = logLine l (logLine (Received data) s)"
      using corrupted_unattributed [OF assms(1) u] by blast
    then show ?thesis by simp
  qed
  show ?thesis
    using w idle un corrupted_fields(1,4) [OF assms(1)] by blast
qed

theorem corrupted_frame_outside_sampling_witness:
  "isCorrupted ''x'' \<and> \<not> isSampling connected
   \<and> arrayAt (deviceAddresses connected) (currentDeviceIndex connected) = None
   \<and> written (handleSerialData ''x'' connected) = written connected
   \<and> errorCounters (handleSerialData ''x'' connected) = errorCounters connected
   \<and> currentDeviceIndex (handleSerialData ''x'' connected) = currentDeviceIndex connected
   \<and> timers (handleSerialData ''x'' connected) = timers connected"
proof -
  have f: "\<not> isSampling connected"
    "arrayAt (deviceAddresses connected) (currentDeviceIndex connected) = None"
    by (simp_all add: connected_def engine_eval)
  show ?thesis
    using corrupted_frame_outside_sampling [OF isCorrupted_x f(1)] f isCorrupted_x by simp
qed

text \<open>
  Claim C9, as stated, fails: a blank line is a complete line without a comma, and it is
  dropped; the engine's state, log included, is unchanged.
\<close>

theorem blank_line_is_dropped:
  "CHR '','' \<notin> set [] \<and> classify (js_trim []) = Ignored
   \<and> js_split (CHR 0x0A) [CHR 0x0A] = [[], []]
   \<and> step (Receive [CHR 0x0A]) connected = connected"
  by (simp add: connected_def engine_eval)

text \<open>
  Claim C9, amended. Every complete line without a comma that is not empty once trimmed is
  classified as a framing failure, never as an integrity failure, logged as such and
  passed to the fault handler. (Lines that are empty once trimmed are ignored.)
\<close>

theorem line_without_comma_is_framing_error:
  assumes "CHR '','' \<notin> set line" and "js_trim line \<noteq> []"
  shows "classify (js_trim line) = FramingError
    \<and> classify (js_trim line) \<noteq> IntegrityError
    \<and> handleSerialData (js_trim line) s =
        handleCorruptedData (logLine InvalidFormat (logLine (Received (js_trim line)) s))"
proof -
  have "CHR '','' \<notin> set (js_trim line)" using assms(1) set_js_trim by blast
  then have "classify (js_trim line) = FramingError"
    using assms(2) by (rule no_comma_classify)
  then show ?thesis by (simp add: handleSerialData_def)
qed

theorem line_without_comma_is_framing_error_witness:
  "CHR '','' \<notin> set '' noise '' \<and> js_trim '' noise '' = ''noise''
   \<and> classify ''noise'' = FramingError
   \<and> handleSerialData ''noise'' announcedA =
        handleCorruptedData (logLine InvalidFormat (logLine (Received ''noise'') announcedA))
   \<and> errorCounters (handleSerialData ''noise'' announcedA) ''A'' = Some 1"
proof -
  have t: "js_trim '' noise '' = ''noise''" by (simp add: js_trim_def isWhiteSpace_def)
  have c: "CHR '','' \<notin> set '' noise ''" by simp
  have n: "js_trim '' noise '' \<noteq> []" by (simp add: t)
  show ?thesis
    using line_without_comma_is_framing_error [OF c n, of announcedA] c
    by (simp add: t announcedA_fields handleCorruptedData_def errorCount_def arrayAt_def logLine_def
        setTimeout_def Let_def)
qed

end
